theory Spec2Isabelle
  imports Complex_Main "HOL-Library.AList" "HOL-Library.Sublist" "HOL-Library.Word"
begin

section \<open>JavaScript errors\<close>

text \<open>
  The exceptions the modelled functions can raise. A function that can throw returns
  \<open>js_error + 'a\<close>, with \<open>Inl\<close> for the exception.
\<close>

datatype js_error =
    TypeError string
  | RangeError string
  | SuperFormError string
  | SchemaError string
  | OtherError string

section \<open>Chunking the serialized payload (superForm.js, formData.js)\<close>

text \<open>
  A JavaScript string is a sequence of UTF-16 code units, and \<open>str.length\<close> is their
  number. The payload and the string values of a \<open>FormData\<close> are modelled as lists of
  16-bit words, because what \<open>FormData.append\<close> does to a string depends on its
  surrogates; \<open>utf16\<close> gives the code units of a literal of ASCII characters.
\<close>

type_synonym code_unit = "16 word"

type_synonym js_string = "code_unit list"












text \<open>
  \<open>FormData.append(name, value)\<close> takes its string value as a \<open>USVString\<close>: the string
  is converted to a sequence of Unicode scalar values, which replaces every surrogate
  that is not part of a pair (a lead surrogate followed by a trail surrogate) by
  \<open>U+FFFD\<close>.
\<close>

definition is_lead :: "code_unit \<Rightarrow> bool" where
  "is_lead u = (0xD800 \<le> u \<and> u \<le> 0xDBFF)"

definition is_trail :: "code_unit \<Rightarrow> bool" where
  "is_trail u = (0xDC00 \<le> u \<and> u \<le> 0xDFFF)"


fun toUSVString :: "js_string \<Rightarrow> js_string" where
  "toUSVString [] = []"
| "toUSVString [u] = (if is_lead u \<or> is_trail u then [0xFFFD] else [u])"
| "toUSVString (u # v # rest) =
     (if is_lead u \<and> is_trail v then u # v # toUSVString rest
      else if is_lead u \<or> is_trail u then 0xFFFD # toUSVString (v # rest)
      else u # toUSVString (v # rest))"

text \<open>
  The entries of a \<open>FormData\<close>: an ordered list of (name, entry) pairs; an entry is
  a string or a file (its size and name). \<open>append\<close> adds at the end, \<open>getAll\<close> returns
  the entries of a name in order.
\<close>

datatype form_entry = Text js_string | File nat string

type_synonym form_data = "(string \<times> form_entry) list"

definition fd_append :: "form_data \<Rightarrow> string \<Rightarrow> form_entry \<Rightarrow> form_data" where
  "fd_append fd name entry =
     fd @ [(name, case entry of Text s \<Rightarrow> Text (toUSVString s) | File n f \<Rightarrow> File n f)]"





section \<open>Properties of the chunking\<close>




















section \<open>JavaScript values\<close>

text \<open>
  The data, shape, error and tainted trees are plain JavaScript values: \<open>undefined\<close>,
  \<open>null\<close>, booleans, numbers, strings and objects. An array is an object too: its
  elements are the properties \<open>"0"\<close>, \<open>"1"\<close>, ...; \<open>Array.isArray\<close> tells the two
  apart, so \<open>Object True props\<close> is an array and \<open>Object False props\<close> a plain object.
  The properties are kept in insertion order with one entry per key. Properties inherited
  from a prototype (\<open>constructor\<close>, \<open>toString\<close>) and the \<open>length\<close> property of an
  array are not keys of the model; dates, files and sets are left out of the leaves.
\<close>

datatype jsval =
    Undefined
  | Null
  | Boolean bool
  | Number int
  | Str string
  | Object bool "(string \<times> jsval) list"

type_synonym props = "(string \<times> jsval) list"

type_synonym path = "string list"

fun is_container :: "jsval \<Rightarrow> bool" where
  "is_container (Object a ps) = True"
| "is_container v = False"

text \<open>\<open>Array.isArray(v)\<close>.\<close>

fun isArray :: "jsval \<Rightarrow> bool" where
  "isArray (Object a ps) = a"
| "isArray v = False"

text \<open>Truthiness, as \<open>if (v)\<close>, \<open>!v\<close> and \<open>v && ...\<close> read a value.\<close>

fun truthy :: "jsval \<Rightarrow> bool" where
  "truthy Undefined = False"
| "truthy Null = False"
| "truthy (Boolean b) = b"
| "truthy (Number n) = (n \<noteq> 0)"
| "truthy (Str s) = (s \<noteq> [])"
| "truthy (Object a ps) = True"

text \<open>\<open>obj[key]\<close> read: \<open>undefined\<close> for a missing key and for a value without properties.\<close>

fun get_prop :: "jsval \<Rightarrow> string \<Rightarrow> jsval" where
  "get_prop (Object a ps) key = (case map_of ps key of None \<Rightarrow> Undefined | Some v \<Rightarrow> v)"
| "get_prop v key = Undefined"

text \<open>\<open>key in obj\<close> for an object or array.\<close>

fun has_prop :: "jsval \<Rightarrow> string \<Rightarrow> bool" where
  "has_prop (Object a ps) key = (key \<in> fst ` set ps)"
| "has_prop v key = False"

text \<open>
  \<open>key in v\<close> for any value: the operator throws a TypeError when its right operand is not
  an object.
\<close>

definition js_in :: "string \<Rightarrow> jsval \<Rightarrow> js_error + bool" where
  "js_in key v =
     (if is_container v then Inr (has_prop v key)
      else Inl (TypeError ''Cannot use 'in' operator to search for a key in a non-object''))"

text \<open>
  \<open>obj[key] = v\<close> on an object or array: the value of an existing key is replaced in
  place, a new key is added last. Every assignment of the modelled functions has an
  object on its left (the traversal only returns containers as parents); on another
  value the model leaves it as it is.
\<close>

fun put_prop :: "jsval \<Rightarrow> string \<Rightarrow> jsval \<Rightarrow> jsval" where
  "put_prop (Object a ps) key v = Object a (AList.update key v ps)"
| "put_prop w key v = w"

subsection \<open>Numbers as property keys, arrays\<close>

definition digit_chars :: string where
  "digit_chars = ''0123456789''"

text \<open>The regular expression class \<open>\d\<close>.\<close>

definition is_digit :: "char \<Rightarrow> bool" where
  "is_digit c = (c \<in> set digit_chars)"

text \<open>\<open>String(n)\<close> for a non-negative whole number.\<close>

fun string_of_nat :: "nat \<Rightarrow> string" where
  "string_of_nat n =
     (if n < 10 then [digit_chars ! n]
      else string_of_nat (n div 10) @ [digit_chars ! (n mod 10)])"

declare string_of_nat.simps [simp del]

definition digit_val :: "char \<Rightarrow> nat" where
  "digit_val c = length (takeWhile (\<lambda>d. d \<noteq> c) digit_chars)"

definition nat_of_string :: "string \<Rightarrow> nat" where
  "nat_of_string s = foldl (\<lambda>n c. 10 * n + digit_val c) 0 s"

text \<open>
  A key is an array index when it is the canonical decimal form of a number: digits only,
  no leading zero except for \<open>"0"\<close> itself.
\<close>

definition array_index :: "string \<Rightarrow> nat option" where
  "array_index s =
     (if s \<noteq> [] \<and> list_all is_digit s \<and> (length s = 1 \<or> hd s \<noteq> CHR ''0'')
      then Some (nat_of_string s) else None)"

text \<open>The length of an array: one more than its largest index.\<close>

fun array_length :: "props \<Rightarrow> nat" where
  "array_length [] = 0"
| "array_length ((k, v) # ps) =
     (case array_index k of Some i \<Rightarrow> max (Suc i) (array_length ps) | None \<Rightarrow> array_length ps)"

text \<open>The literals \<open>{}\<close>, \<open>[]\<close> and \<open>[v]\<close>.\<close>

definition empty_object :: jsval where
  "empty_object = Object False []"

definition empty_array :: jsval where
  "empty_array = Object True []"

definition array1 :: "jsval \<Rightarrow> jsval" where
  "array1 v = Object True [(''0'', v)]"

text \<open>
  \<open>v.push(x)\<close>: appends to an array; any other value has no \<open>push\<close> method, and the call
  throws a TypeError.
\<close>

fun js_push :: "jsval \<Rightarrow> jsval \<Rightarrow> js_error + jsval" where
  "js_push (Object True ps) x =
     Inr (Object True (AList.update (string_of_nat (array_length ps)) x ps))"
| "js_push v x = Inl (TypeError ''push is not a function'')"

text \<open>\<open>xs.join(sep)\<close> on an array of strings.\<close>

fun join_with :: "string \<Rightarrow> string list \<Rightarrow> string" where
  "join_with sep [] = []"
| "join_with sep [x] = x"
| "join_with sep (x # y # ys) = x @ sep @ join_with sep (y # ys)"

section \<open>Tree traversal (traversal.js)\<close>

text \<open>
  Modelled from the spec: the file \<open>traversal.js\<close>, which holds \<open>pathExists\<close>,
  \<open>traversePath\<close>, \<open>traversePaths\<close>, \<open>setPaths\<close> and \<open>comparePaths\<close>, is not among the
  sources; only its callers are. The definitions of this section follow section 4.2 of
  the specification. A path is the list of property keys from the root.

  \<open>exists(tree, path)\<close> returns parent, key and value of the addressed node and
  ``fails (returns undefined) if any intermediate segment is missing or not a container''.
  The empty path addresses no node.
\<close>

fun pathExists :: "jsval \<Rightarrow> path \<Rightarrow> (jsval \<times> string \<times> jsval) option" where
  "pathExists obj [] = None"
| "pathExists obj [key] =
     (if is_container obj then Some (obj, key, get_prop obj key) else None)"
| "pathExists obj (key # rest) =
     (if is_container obj then pathExists (get_prop obj key) rest else None)"

text \<open>
  Modelled from the spec: \<open>traverse(tree, path, visitor)\<close> ``walks the tree, invoking
  visitor({value, parent, key, path}) at each step; visitor may return a creation value
  used to materialize missing intermediate containers''. The visitor is called at every
  intermediate key; it may assign to \<open>parent[key]\<close>, so it returns the parent as it left
  it together with its return value. The walk goes on into the returned value when that
  is a container and fails otherwise (``walking through a non-container''). The result
  is the tree as the visitor left it and, when the walk reached the last key, the leaf:
  the path to its parent, the parent, the key and the value.
\<close>

type_synonym leaf = "path \<times> jsval \<times> string \<times> jsval"

type_synonym visitor = "jsval \<Rightarrow> string \<Rightarrow> jsval \<Rightarrow> jsval \<times> jsval"

fun traversePath :: "visitor \<Rightarrow> jsval \<Rightarrow> path \<Rightarrow> jsval \<times> leaf option" where
  "traversePath vis obj [] = (obj, None)"
| "traversePath vis obj [key] =
     (if is_container obj then (obj, Some ([], obj, key, get_prop obj key)) else (obj, None))"
| "traversePath vis obj (key # rest) =
     (if \<not> is_container obj then (obj, None)
      else let (obj1, r) = vis obj key (get_prop obj key)
           in if \<not> is_container r then (obj1, None)
              else (case traversePath vis r rest of
                      (r', None) \<Rightarrow> (put_prop obj1 key r', None)
                    | (r', Some (ppath, parent, k, v)) \<Rightarrow>
                        (put_prop obj1 key r', Some (key # ppath, parent, k, v))))"

text \<open>Without a visitor the walk reads \<open>parent[key]\<close> and changes nothing.\<close>

definition no_visitor :: visitor where
  "no_visitor parent key v = (parent, v)"

text \<open>
  A caller that changes \<open>leaf.parent\<close> in place changes the tree: seen from the root, the
  node at the path \<open>ppath\<close> is replaced by the changed parent.
\<close>

fun replace_at :: "jsval \<Rightarrow> path \<Rightarrow> jsval \<Rightarrow> jsval" where
  "replace_at obj [] v = v"
| "replace_at obj (k # ks) v = put_prop obj k (replace_at (get_prop obj k) ks v)"

text \<open>
  Modelled from the spec: \<open>setPaths(tree, paths, valueOrUpdater)\<close>: ``for each path,
  creates intermediate containers as needed and sets the leaf; valueOrUpdater may be a
  literal or a function of (path, previousValue)''. An intermediate value that is not a
  container is replaced by an empty object. The updater gets the path and the value the
  leaf had.
\<close>

fun setPath :: "jsval \<Rightarrow> path \<Rightarrow> (jsval \<Rightarrow> jsval) \<Rightarrow> jsval" where
  "setPath obj [] f = obj"
| "setPath obj [key] f = put_prop obj key (f (get_prop obj key))"
| "setPath obj (key # rest) f =
     put_prop obj key
       (setPath (if is_container (get_prop obj key) then get_prop obj key else Object False [])
          rest f)"

fun setPaths :: "jsval \<Rightarrow> path list \<Rightarrow> (path \<Rightarrow> jsval \<Rightarrow> jsval) \<Rightarrow> jsval" where
  "setPaths obj [] updater = obj"
| "setPaths obj (p # paths) updater = setPaths (setPath obj p (updater p)) paths updater"

text \<open>\<open>setPaths(obj, paths, v)\<close> with a literal value.\<close>

definition literal :: "jsval \<Rightarrow> path \<Rightarrow> jsval \<Rightarrow> jsval" where
  "literal v p previous = v"

text \<open>
  Modelled from the spec: \<open>traverseAll(tree, visitor)\<close> visits the nodes depth-first, each
  before its children, in the order of the keys; ``arrays are treated as leaves, not
  descended into''. \<open>traversePaths\<close> lists the visited nodes with their paths, in the
  order of the visits; a visitor that does not change the tree it walks is a fold over
  this list.
\<close>

fun traversePaths :: "jsval \<Rightarrow> (path \<times> jsval) list"
  and traversePaths_props :: "props \<Rightarrow> (path \<times> jsval) list" where
  "traversePaths (Object False ps) = traversePaths_props ps"
| "traversePaths v = []"
| "traversePaths_props [] = []"
| "traversePaths_props ((k, v) # rest) =
     ([k], v) # map (\<lambda>(q, x). (k # q, x)) (traversePaths v) @ traversePaths_props rest"

text \<open>
  The same walk with a visitor that calls \<open>set(v)\<close> of the visited node, which assigns
  \<open>parent[key] = v\<close>: the visitor returns \<open>Some v\<close> when it sets the node and \<open>None\<close>
  when it leaves it. A node that was set is not walked into.
\<close>

fun traversePaths_set :: "(path \<Rightarrow> jsval \<Rightarrow> jsval option) \<Rightarrow> jsval \<Rightarrow> path \<Rightarrow> jsval"
  and traversePaths_set_props :: "(path \<Rightarrow> jsval \<Rightarrow> jsval option) \<Rightarrow> props \<Rightarrow> path \<Rightarrow> props" where
  "traversePaths_set f (Object False ps) p = Object False (traversePaths_set_props f ps p)"
| "traversePaths_set f v p = v"
| "traversePaths_set_props f [] p = []"
| "traversePaths_set_props f ((k, v) # rest) p =
     (k, case f (p @ [k]) v of Some v' \<Rightarrow> v' | None \<Rightarrow> traversePaths_set f v (p @ [k]))
       # traversePaths_set_props f rest p"


section \<open>Validation issues into an error tree (errors.js)\<close>

text \<open>
  A segment of an issue's path is a string or a number (an array index). \<open>String(p)\<close>
  turns it into the property key; \<open>!p\<close> holds for the empty string and for \<open>0\<close>.
\<close>

datatype pseg = PStr string | PNum nat

fun seg_toString :: "pseg \<Rightarrow> string" where
  "seg_toString (PStr s) = s"
| "seg_toString (PNum n) = string_of_nat n"

fun seg_falsy :: "pseg \<Rightarrow> bool" where
  "seg_falsy (PStr s) = (s = [])"
| "seg_falsy (PNum n) = (n = 0)"

text \<open>An issue of the validation library: \<open>{path, message}\<close>, the path possibly absent.\<close>

record issue =
  issue_path :: "pseg list option"
  issue_message :: string

text \<open>The tests \<open>/^\d$/.test(s)\<close> and \<open>/\D/.test(s)\<close>.\<close>

definition single_digit :: "string \<Rightarrow> bool" where
  "single_digit s = (case s of [c] \<Rightarrow> is_digit c | _ \<Rightarrow> False)"

definition has_non_digit :: "string \<Rightarrow> bool" where
  "has_non_digit s = list_ex (\<lambda>c. \<not> is_digit c) s"

text \<open>\<open>obj[key].push(x)\<close>: the array stored at \<open>obj[key]\<close> grows in place.\<close>

definition push_prop :: "jsval \<Rightarrow> string \<Rightarrow> jsval \<Rightarrow> js_error + jsval" where
  "push_prop obj key x =
     (case js_push (get_prop obj key) x of
        Inl e \<Rightarrow> Inl e
      | Inr a \<Rightarrow> Inr (put_prop obj key a))"

text \<open>
  \<^verbatim>\<open>
  function addFormLevelError(error) {
      if (!('_errors' in output)) output._errors = [];
      if (!Array.isArray(output._errors)) {
          if (typeof output._errors === 'string') output._errors = [output._errors];
          else throw new SuperFormError('Form-level error was not an array.');
      }
      output._errors.push(error.message);
  }
  \<close>
\<close>

definition addFormLevelError :: "jsval \<Rightarrow> string \<Rightarrow> js_error + jsval" where
  "addFormLevelError output msg =
     (let output1 = (if \<not> has_prop output ''_errors''
                     then put_prop output ''_errors'' empty_array else output)
      in if \<not> isArray (get_prop output1 ''_errors'')
         then (case get_prop output1 ''_errors'' of
                 Str s \<Rightarrow> push_prop (put_prop output1 ''_errors'' (array1 (Str s)))
                            ''_errors'' (Str msg)
               | _ \<Rightarrow> Inl (SuperFormError ''Form-level error was not an array.''))
         else push_prop output1 ''_errors'' (Str msg))"

text \<open>
  The visitor of \<open>mapErrors\<close>:
  \<^verbatim>\<open>({ value, parent, key }) => { if (value === undefined) parent[key] = {}; return parent[key]; }\<close>
\<close>

definition mapErrors_visitor :: visitor where
  "mapErrors_visitor parent key v =
     (if v = Undefined then (put_prop parent key empty_object, empty_object)
      else (parent, v))"

text \<open>
  What \<open>mapErrors\<close> does with the leaf, as a change of \<open>leaf.parent\<close>:
  \<^verbatim>\<open>
  if (objectError) {
      if (!(key in parent)) parent[key] = {};
      if (!('_errors' in parent[key])) parent[key]._errors = [error.message];
      else parent[key]._errors.push(error.message);
  } else {
      if (!(key in parent)) parent[key] = [error.message];
      else parent[key].push(error.message);
  }
  \<close>
\<close>

definition add_at_leaf :: "bool \<Rightarrow> jsval \<Rightarrow> string \<Rightarrow> string \<Rightarrow> js_error + jsval" where
  "add_at_leaf objectError parent key msg =
     (if objectError
      then let parent1 = (if \<not> has_prop parent key
                          then put_prop parent key empty_object else parent);
               child = get_prop parent1 key
           in (case js_in ''_errors'' child of
                 Inl e \<Rightarrow> Inl e
               | Inr present \<Rightarrow>
                   if \<not> present
                   then Inr (put_prop parent1 key (put_prop child ''_errors'' (array1 (Str msg))))
                   else (case push_prop child ''_errors'' (Str msg) of
                           Inl e \<Rightarrow> Inl e
                         | Inr child' \<Rightarrow> Inr (put_prop parent1 key child')))
      else if \<not> has_prop parent key
           then Inr (put_prop parent key (array1 (Str msg)))
           else push_prop parent key (Str msg))"

text \<open>
  One round of the loop of \<open>mapErrors\<close> over the issues, from the output so far to the
  output after the issue:
  \<^verbatim>\<open>
  if (!error.path || (error.path.length == 1 && !error.path[0])) {
      addFormLevelError(error); continue;
  }
  const isLastIndexNumeric = /^\d$/.test(String(error.path[error.path.length - 1]));
  const objectError = !isLastIndexNumeric &&
      pathExists(shape, error.path.filter((p) => /\D/.test(String(p))))?.value;
  const leaf = traversePath(output, error.path, visitor);
  if (!leaf) { addFormLevelError(error); continue; }
  const { parent, key } = leaf;
  ...
  \<close>
  For the empty path \<open>error.path[-1]\<close> is \<open>undefined\<close>, whose string has no digit.
\<close>

definition isLastIndexNumeric :: "pseg list \<Rightarrow> bool" where
  "isLastIndexNumeric epath =
     (case epath of [] \<Rightarrow> False | _ \<Rightarrow> single_digit (seg_toString (last epath)))"

definition objectError :: "jsval \<Rightarrow> pseg list \<Rightarrow> bool" where
  "objectError shape epath =
     (\<not> isLastIndexNumeric epath \<and>
      truthy (case pathExists shape
                     (map seg_toString (filter (\<lambda>p. has_non_digit (seg_toString p)) epath)) of
                None \<Rightarrow> Undefined
              | Some (parent, key, v) \<Rightarrow> v))"

definition mapErrors_step :: "jsval \<Rightarrow> jsval \<Rightarrow> issue \<Rightarrow> js_error + jsval" where
  "mapErrors_step shape output error =
     (case issue_path error of
        None \<Rightarrow> addFormLevelError output (issue_message error)
      | Some epath \<Rightarrow>
          if length epath = 1 \<and> seg_falsy (epath ! 0)
          then addFormLevelError output (issue_message error)
          else (case traversePath mapErrors_visitor output (map seg_toString epath) of
                  (output1, None) \<Rightarrow> addFormLevelError output1 (issue_message error)
                | (output1, Some (ppath, parent, key, v)) \<Rightarrow>
                    (case add_at_leaf (objectError shape epath) parent key (issue_message error) of
                       Inl e \<Rightarrow> Inl e
                     | Inr parent' \<Rightarrow> Inr (replace_at output1 ppath parent'))))"

fun mapErrors_loop :: "jsval \<Rightarrow> issue list \<Rightarrow> jsval \<Rightarrow> js_error + jsval" where
  "mapErrors_loop shape [] output = Inr output"
| "mapErrors_loop shape (error # errors) output =
     (case mapErrors_step shape output error of
        Inl e \<Rightarrow> Inl e
      | Inr output' \<Rightarrow> mapErrors_loop shape errors output')"

definition mapErrors :: "issue list \<Rightarrow> jsval \<Rightarrow> js_error + jsval" where
  "mapErrors errors shape = mapErrors_loop shape errors empty_object"


section \<open>Properties of keys and arrays\<close>

lemma digit_chars_nth_cases:
  assumes "n < 10"
  shows "digit_val (digit_chars ! n) = n \<and> is_digit (digit_chars ! n)
         \<and> (0 < n \<longrightarrow> digit_chars ! n \<noteq> CHR ''0'')"
proof -
  have "list_all (\<lambda>m. digit_val (digit_chars ! m) = m \<and> is_digit (digit_chars ! m)
                    \<and> (0 < m \<longrightarrow> digit_chars ! m \<noteq> CHR ''0'')) [0..<10]"
    by (simp add: upt_rec digit_val_def digit_chars_def is_digit_def)
  then show ?thesis
    using assms by (simp add: list_all_iff)
qed

lemma nat_of_string_snoc: "nat_of_string (s @ [c]) = 10 * nat_of_string s + digit_val c"
  by (simp add: nat_of_string_def)

lemma string_of_nat_nonempty: "string_of_nat n \<noteq> []"
  by (subst string_of_nat.simps) simp

lemma nat_of_string_of_nat: "nat_of_string (string_of_nat n) = n"
proof (induction n rule: string_of_nat.induct)
  case (1 n)
  show ?case
  proof (cases "n < 10")
    case True
    then show ?thesis
      using digit_chars_nth_cases[of n]
      by (subst string_of_nat.simps) (simp add: nat_of_string_def)
  next
    case False
    then have "nat_of_string (string_of_nat n) =
               10 * nat_of_string (string_of_nat (n div 10)) + digit_val (digit_chars ! (n mod 10))"
      by (subst string_of_nat.simps) (simp add: nat_of_string_snoc)
    then show ?thesis
      using 1 False digit_chars_nth_cases[of "n mod 10"] by simp
  qed
qed

lemma string_of_nat_digits: "list_all is_digit (string_of_nat n)"
proof (induction n rule: string_of_nat.induct)
  case (1 n)
  show ?case
  proof (cases "n < 10")
    case True
    then show ?thesis
      using digit_chars_nth_cases[of n] by (subst string_of_nat.simps) simp
  next
    case False
    then show ?thesis
      using 1 digit_chars_nth_cases[of "n mod 10"] by (subst string_of_nat.simps) simp
  qed
qed

lemma string_of_nat_hd: "0 < n \<Longrightarrow> hd (string_of_nat n) \<noteq> CHR ''0''"
proof (induction n rule: string_of_nat.induct)
  case (1 n)
  show ?case
  proof (cases "n < 10")
    case True
    then show ?thesis
      using digit_chars_nth_cases[of n] "1.prems" by (subst string_of_nat.simps) simp
  next
    case False
    then have "0 < n div 10" by simp
    then have "hd (string_of_nat (n div 10)) \<noteq> CHR ''0''"
      using 1 False by simp
    moreover have "string_of_nat n = string_of_nat (n div 10) @ [digit_chars ! (n mod 10)]"
      using False by (subst string_of_nat.simps) simp
    ultimately show ?thesis
      using string_of_nat_nonempty[of "n div 10"] by simp
  qed
qed

lemma length_string_of_nat: "length (string_of_nat n) = 1 \<longleftrightarrow> n < 10"
proof (cases "n < 10")
  case True
  then show ?thesis by (subst string_of_nat.simps) simp
next
  case False
  have "string_of_nat n = string_of_nat (n div 10) @ [digit_chars ! (n mod 10)]"
    using False by (subst string_of_nat.simps) simp
  then show ?thesis
    using False string_of_nat_nonempty[of "n div 10"] by simp
qed

lemma array_index_string_of_nat: "array_index (string_of_nat n) = Some n"
proof -
  have "length (string_of_nat n) = 1 \<or> hd (string_of_nat n) \<noteq> CHR ''0''"
    using length_string_of_nat[of n] string_of_nat_hd[of n] by (cases "n < 10") auto
  then show ?thesis
    by (simp add: array_index_def string_of_nat_nonempty string_of_nat_digits nat_of_string_of_nat)
qed

lemma string_of_nat_inj: "string_of_nat m = string_of_nat n \<Longrightarrow> m = n"
  by (metis nat_of_string_of_nat)

lemma single_digit_string_of_nat: "single_digit (string_of_nat n) \<longleftrightarrow> n < 10"
proof (cases "n < 10")
  case True
  then show ?thesis
    using digit_chars_nth_cases[of n] by (subst string_of_nat.simps) (simp add: single_digit_def)
next
  case False
  then have "length (string_of_nat n) \<noteq> 1"
    using length_string_of_nat[of n] by simp
  then show ?thesis
    using False by (auto simp: single_digit_def split: list.splits)
qed

text \<open>The elements of an array in the order of their indices; no elements for another value.\<close>

definition elements :: "jsval \<Rightarrow> jsval list" where
  "elements a =
     (case a of
        Object True ps \<Rightarrow> map (\<lambda>i. get_prop a (string_of_nat i)) [0..<array_length ps]
      | _ \<Rightarrow> [])"

lemma array_length_update:
  "array_length (AList.update k x ps) =
     (case array_index k of Some i \<Rightarrow> max (Suc i) (array_length ps) | None \<Rightarrow> array_length ps)"
  by (induction ps) (auto split: option.splits)

lemma elements_push:
  assumes "isArray a"
  shows "\<exists>a'. js_push a x = Inr a' \<and> isArray a' \<and> elements a' = elements a @ [x]"
proof -
  obtain ps where a: "a = Object True ps"
    using assms by (cases a) auto
  define n where "n = array_length ps"
  define a' where "a' = Object True (AList.update (string_of_nat n) x ps)"
  have push: "js_push a x = Inr a'"
    by (simp add: a a'_def n_def)
  have len: "array_length (AList.update (string_of_nat n) x ps) = Suc n"
    by (simp add: array_length_update array_index_string_of_nat n_def)
  have old: "get_prop a' (string_of_nat i) = get_prop a (string_of_nat i)" if "i < n" for i
  proof -
    have "string_of_nat i \<noteq> string_of_nat n"
      using that string_of_nat_inj[of i n] by auto
    then show ?thesis
      by (simp add: a a'_def update_conv')
  qed
  have new: "get_prop a' (string_of_nat n) = x"
    by (simp add: a'_def update_conv')
  have "elements a' = map (\<lambda>i. get_prop a' (string_of_nat i)) [0..<Suc n]"
    by (simp add: elements_def a'_def len)
  also have "\<dots> = map (\<lambda>i. get_prop a (string_of_nat i)) [0..<n] @ [x]"
    using old new by simp
  also have "\<dots> = elements a @ [x]"
    by (simp add: elements_def a n_def)
  finally show ?thesis
    using push by (simp add: a'_def)
qed

lemma push_prop_array:
  assumes "isArray (get_prop (Object False ps) key)"
  shows "\<exists>out'. push_prop (Object False ps) key x = Inr out'
           \<and> isArray (get_prop out' key)
           \<and> elements (get_prop out' key) = elements (get_prop (Object False ps) key) @ [x]
           \<and> (\<forall>k. k \<noteq> key \<longrightarrow> get_prop out' k = get_prop (Object False ps) k
                              \<and> has_prop out' k = has_prop (Object False ps) k)"
proof -
  obtain a' where a': "js_push (get_prop (Object False ps) key) x = Inr a'" "isArray a'"
      "elements a' = elements (get_prop (Object False ps) key) @ [x]"
    using elements_push[OF assms] by blast
  have "push_prop (Object False ps) key x = Inr (Object False (AList.update key a' ps))"
    using a'(1) by (simp add: push_prop_def)
  then show ?thesis
    using a'(2,3) by (auto simp: update_conv' dom_update image_iff)
qed

lemma elements_array1: "elements (array1 v) = [v]"
  by (simp add: elements_def array1_def array_index_def nat_of_string_def digit_val_def
        is_digit_def digit_chars_def)
     (subst string_of_nat.simps, simp add: digit_chars_def)

section \<open>Properties of mapErrors\<close>

lemma isLastIndexNumeric_number:
  "isLastIndexNumeric (epath @ [PNum n]) \<longleftrightarrow> n < 10"
  by (cases epath) (simp_all add: isLastIndexNumeric_def single_digit_string_of_nat)

text \<open>
  Claim C2, evaluated. An issue at index 10 of the array field \<open>tags\<close>, with the shape
  \<open>{tags: {}}\<close>: \<open>/^\d$/\<close> matches one digit only, so \<open>isLastIndexNumeric\<close> is false,
  the filtered path \<open>['tags']\<close> exists in the shape, and the message is stored under
  \<open>tags.10._errors\<close>. The same issue at index 1 is stored as the leaf \<open>tags.1\<close>.
\<close>

theorem mapErrors_two_digit_index:
  "mapErrors [\<lparr>issue_path = Some [PStr ''tags'', PNum 10], issue_message = ''bad''\<rparr>]
      (Object False [(''tags'', Object False [])])
     = Inr (Object False [(''tags'', Object False
              [(''10'', Object False [(''_errors'', Object True [(''0'', Str ''bad'')])])])])
   \<and> mapErrors [\<lparr>issue_path = Some [PStr ''tags'', PNum 1], issue_message = ''bad''\<rparr>]
      (Object False [(''tags'', Object False [])])
     = Inr (Object False [(''tags'', Object False
              [(''1'', Object True [(''0'', Str ''bad'')])])])"
  by code_simp

text \<open>
  Claim C10, as amended. An issue whose path is one falsy segment (the number \<open>0\<close> or the
  empty string) is handled as a form-level error and creates no leaf at that path. When
  the root has no \<open>_errors\<close> or an array there, the message is appended to that array
  and every other key of the root stays as it was. When the root's \<open>_errors\<close> holds
  something else that is not a string (an object that an earlier issue addressed below
  \<open>_errors\<close> has left), \<open>mapErrors\<close> throws the SuperFormError of
  \<open>addFormLevelError\<close> instead. A string there is first wrapped in an array, and
  the message is appended after it.
\<close>

theorem mapErrors_falsy_segment:
  assumes "issue_path error = Some [k]" and "seg_falsy k"
  shows "(\<not> has_prop (Object False ps) ''_errors'' \<or> isArray (get_prop (Object False ps) ''_errors'')
           \<longrightarrow> (\<exists>out'. mapErrors_step shape (Object False ps) error = Inr out'
                  \<and> isArray (get_prop out' ''_errors'')
                  \<and> elements (get_prop out' ''_errors'') =
                      elements (get_prop (Object False ps) ''_errors'') @ [Str (issue_message error)]
                  \<and> (\<forall>key. key \<noteq> ''_errors'' \<longrightarrow>
                        get_prop out' key = get_prop (Object False ps) key
                        \<and> has_prop out' key = has_prop (Object False ps) key)))
       \<and> (has_prop (Object False ps) ''_errors''
            \<and> \<not> isArray (get_prop (Object False ps) ''_errors'')
            \<and> (\<forall>s. get_prop (Object False ps) ''_errors'' \<noteq> Str s)
           \<longrightarrow> mapErrors_step shape (Object False ps) error =
                 Inl (SuperFormError ''Form-level error was not an array.''))
       \<and> (\<forall>s. get_prop (Object False ps) ''_errors'' = Str s
           \<longrightarrow> (\<exists>out'. mapErrors_step shape (Object False ps) error = Inr out'
                  \<and> isArray (get_prop out' ''_errors'')
                  \<and> elements (get_prop out' ''_errors'') = [Str s, Str (issue_message error)]
                  \<and> (\<forall>key. key \<noteq> ''_errors'' \<longrightarrow>
                        get_prop out' key = get_prop (Object False ps) key
                        \<and> has_prop out' key = has_prop (Object False ps) key)))"
proof -
  let ?out = "Object False ps"
  let ?msg = "issue_message error"
  have step: "mapErrors_step shape ?out error = addFormLevelError ?out ?msg"
    using assms by (simp add: mapErrors_step_def)
  have absent: "\<exists>out'. addFormLevelError ?out ?msg = Inr out'
                  \<and> isArray (get_prop out' ''_errors'')
                  \<and> elements (get_prop out' ''_errors'') = elements (get_prop ?out ''_errors'') @ [Str ?msg]
                  \<and> (\<forall>key. key \<noteq> ''_errors'' \<longrightarrow> get_prop out' key = get_prop ?out key
                        \<and> has_prop out' key = has_prop ?out key)"
    if no: "\<not> has_prop ?out ''_errors''"
  proof -
    let ?ps1 = "AList.update ''_errors'' empty_array ps"
    have arr: "isArray (get_prop (Object False ?ps1) ''_errors'')"
      by (simp add: update_conv' empty_array_def)
    obtain out' where o: "push_prop (Object False ?ps1) ''_errors'' (Str ?msg) = Inr out'"
        "isArray (get_prop out' ''_errors'')"
        "elements (get_prop out' ''_errors'') = elements (get_prop (Object False ?ps1) ''_errors'') @ [Str ?msg]"
        "\<forall>k. k \<noteq> ''_errors'' \<longrightarrow> get_prop out' k = get_prop (Object False ?ps1) k
                              \<and> has_prop out' k = has_prop (Object False ?ps1) k"
      using push_prop_array[OF arr] by blast
    have none: "map_of ps ''_errors'' = None"
      using no by (simp add: map_of_eq_None_iff)
    have e0: "elements (get_prop (Object False ?ps1) ''_errors'') = elements (get_prop ?out ''_errors'')"
      using none by (simp add: update_conv' empty_array_def elements_def)
    have "addFormLevelError ?out ?msg = Inr out'"
      using no arr o(1) by (simp add: addFormLevelError_def Let_def)
    then show ?thesis
      using o(2,3,4) e0 by (auto simp: update_conv' dom_update image_iff)
  qed
  have present: "\<exists>out'. addFormLevelError ?out ?msg = Inr out'
                  \<and> isArray (get_prop out' ''_errors'')
                  \<and> elements (get_prop out' ''_errors'') = elements (get_prop ?out ''_errors'') @ [Str ?msg]
                  \<and> (\<forall>key. key \<noteq> ''_errors'' \<longrightarrow> get_prop out' key = get_prop ?out key
                        \<and> has_prop out' key = has_prop ?out key)"
    if arr: "isArray (get_prop ?out ''_errors'')" and yes: "has_prop ?out ''_errors''"
  proof -
    have "addFormLevelError ?out ?msg = push_prop ?out ''_errors'' (Str ?msg)"
      using arr yes by (simp add: addFormLevelError_def Let_def)
    then show ?thesis
      using push_prop_array[OF arr, of "Str ?msg"] by simp
  qed
  have thrown: "addFormLevelError ?out ?msg = Inl (SuperFormError ''Form-level error was not an array.'')"
    if "has_prop ?out ''_errors''" "\<not> isArray (get_prop ?out ''_errors'')"
       "\<forall>s. get_prop ?out ''_errors'' \<noteq> Str s"
    using that by (auto simp: addFormLevelError_def Let_def split: jsval.splits)
  have wrapped: "\<exists>out'. addFormLevelError ?out ?msg = Inr out'
                  \<and> isArray (get_prop out' ''_errors'')
                  \<and> elements (get_prop out' ''_errors'') = [Str s, Str ?msg]
                  \<and> (\<forall>key. key \<noteq> ''_errors'' \<longrightarrow> get_prop out' key = get_prop ?out key
                        \<and> has_prop out' key = has_prop ?out key)"
    if str: "get_prop ?out ''_errors'' = Str s" for s
  proof -
    let ?ps1 = "AList.update ''_errors'' (array1 (Str s)) ps"
    have yes: "has_prop ?out ''_errors''"
      using str by (auto split: option.splits dest: map_of_SomeD
                         intro: image_eqI[where x="(''_errors'', Str s)"])
    have arr: "isArray (get_prop (Object False ?ps1) ''_errors'')"
      by (simp add: update_conv' array1_def)
    obtain out' where o: "push_prop (Object False ?ps1) ''_errors'' (Str ?msg) = Inr out'"
        "isArray (get_prop out' ''_errors'')"
        "elements (get_prop out' ''_errors'') = elements (get_prop (Object False ?ps1) ''_errors'') @ [Str ?msg]"
        "\<forall>k. k \<noteq> ''_errors'' \<longrightarrow> get_prop out' k = get_prop (Object False ?ps1) k
                              \<and> has_prop out' k = has_prop (Object False ?ps1) k"
      using push_prop_array[OF arr] by blast
    have e0: "elements (get_prop (Object False ?ps1) ''_errors'') = [Str s]"
      by (simp add: update_conv' elements_array1)
    have "addFormLevelError ?out ?msg = Inr out'"
      using yes str o(1) by (simp add: addFormLevelError_def Let_def)
    then show ?thesis
      using o(2,3,4) e0 by (auto simp: update_conv' dom_update image_iff)
  qed
  show ?thesis
    unfolding step using absent present thrown wrapped by blast
qed

theorem mapErrors_falsy_segment_witness:
  "issue_path \<lparr>issue_path = Some [PNum 0], issue_message = ''bad''\<rparr> = Some [PNum 0]
   \<and> seg_falsy (PNum 0)
   \<and> \<not> has_prop (Object False []) ''_errors''
   \<and> (\<exists>out'. mapErrors_step Undefined (Object False [])
                 \<lparr>issue_path = Some [PNum 0], issue_message = ''bad''\<rparr> = Inr out'
          \<and> elements (get_prop out' ''_errors'') = [Str ''bad''])"
  using mapErrors_falsy_segment[of "\<lparr>issue_path = Some [PNum 0], issue_message = ''bad''\<rparr>"
          "PNum 0" "[]" Undefined]
  by (auto simp: elements_def)

text \<open>
  Claim C10 as stated fails: after an issue addressed below \<open>_errors\<close>, an issue at the
  root index \<open>0\<close> is not appended to the root's \<open>_errors\<close>; \<open>mapErrors\<close> throws.
\<close>

theorem mapErrors_falsy_segment_counterexample:
  "mapErrors [\<lparr>issue_path = Some [PStr ''_errors'', PStr ''x''], issue_message = ''a''\<rparr>,
              \<lparr>issue_path = Some [PNum 0], issue_message = ''b''\<rparr>]
      (Object False [])
   = Inl (SuperFormError ''Form-level error was not an array.'')"
  by code_simp


section \<open>Merging error trees (errors.js)\<close>

text \<open>
  \<^verbatim>\<open>
  export function updateErrors(New, Previous, force) {
      if (force) return New;
      // Set previous errors to undefined,
      // which signifies that an error can be displayed there again.
      traversePaths(Previous, (errors) => {
          if (!Array.isArray(errors.value)) return;
          errors.set(undefined);
      });
      traversePaths(New, (error) => {
          if (!Array.isArray(error.value) && error.value !== undefined) return;
          setPaths(Previous, [error.path], error.value);
      });
      return Previous;
  }
  \<close>
  \<open>Previous\<close> is changed in place and returned, so the model returns two trees: the
  returned one and \<open>Previous\<close> as the call leaves it. \<open>force\<close> is read for its
  truthiness. \<open>New\<close> and \<open>Previous\<close> are different objects at every call of the
  sources (\<open>Previous\<close> is \<open>Data.errors\<close>, a clone of the store's value).
\<close>

definition clear_visitor :: "path \<Rightarrow> jsval \<Rightarrow> jsval option" where
  "clear_visitor p v = (if \<not> isArray v then None else Some Undefined)"

definition write_visitor :: "jsval \<Rightarrow> path \<times> jsval \<Rightarrow> jsval" where
  "write_visitor Previous error =
     (case error of (p, v) \<Rightarrow>
        if \<not> isArray v \<and> v \<noteq> Undefined then Previous
        else setPaths Previous [p] (literal v))"

definition updateErrors :: "jsval \<Rightarrow> jsval \<Rightarrow> bool \<Rightarrow> jsval \<times> jsval" where
  "updateErrors New Previous force =
     (if force then (New, Previous)
      else let Previous1 = traversePaths_set clear_visitor Previous [];
               Previous2 = foldl write_visitor Previous1 (traversePaths New)
           in (Previous2, Previous2))"


section \<open>Properties of the traversal\<close>

text \<open>
  A JavaScript object has one entry per key. \<open>distinct_keys\<close> says so of a tree, for
  the objects that \<open>traversePaths\<close> walks through.
\<close>

fun distinct_keys :: "jsval \<Rightarrow> bool"
  and distinct_keys_props :: "props \<Rightarrow> bool" where
  "distinct_keys (Object False ps) = distinct_keys_props ps"
| "distinct_keys v = True"
| "distinct_keys_props [] = True"
| "distinct_keys_props ((k, v) # rest) =
     (k \<notin> fst ` set rest \<and> distinct_keys v \<and> distinct_keys_props rest)"

text \<open>A plain object: a container that is not an array.\<close>

definition plain_object :: "jsval \<Rightarrow> bool" where
  "plain_object v = (is_container v \<and> \<not> isArray v)"

lemma plain_object_simps [simp]:
  "plain_object (Object a ps) = (\<not> a)"
  "\<not> plain_object Undefined" "\<not> plain_object Null" "\<not> plain_object (Boolean b)"
  "\<not> plain_object (Number n)" "\<not> plain_object (Str s)"
  by (simp_all add: plain_object_def)

lemma traversePaths_not_plain: "\<not> plain_object v \<Longrightarrow> traversePaths v = []"
  by (cases v rule: traversePaths.cases) simp_all

lemma in_traversePaths_props:
  "(q, w) \<in> set (traversePaths_props ps) \<longleftrightarrow>
     (\<exists>k v. (k, v) \<in> set ps \<and>
        ((q = [k] \<and> w = v) \<or> (\<exists>r. q = k # r \<and> (r, w) \<in> set (traversePaths v))))"
proof (induction ps)
  case Nil
  then show ?case by simp
next
  case (Cons kv ps)
  obtain k0 v0 where kv: "kv = (k0, v0)" by (cases kv)
  have shift: "(q, w) \<in> (\<lambda>(q, x). (k0 # q, x)) ` set (traversePaths v0)
                 \<longleftrightarrow> (\<exists>r. q = k0 # r \<and> (r, w) \<in> set (traversePaths v0))"
    by force
  have "(q, w) \<in> set (traversePaths_props (kv # ps)) \<longleftrightarrow>
          (q = [k0] \<and> w = v0) \<or> (\<exists>r. q = k0 # r \<and> (r, w) \<in> set (traversePaths v0))
          \<or> (q, w) \<in> set (traversePaths_props ps)"
    unfolding kv using shift by simp
  then show ?case
    unfolding Cons.IH kv by auto
qed

lemma in_traversePathsE:
  assumes "(q, w) \<in> set (traversePaths t)"
  obtains ps k v r where "t = Object False ps" and "(k, v) \<in> set ps" and "q = k # r"
    and "(r = [] \<and> w = v) \<or> (r, w) \<in> set (traversePaths v)"
proof -
  from assms obtain ps where t: "t = Object False ps"
    by (cases t rule: traversePaths.cases) auto
  with assms have "(q, w) \<in> set (traversePaths_props ps)" by simp
  then show ?thesis
    using t that by (auto simp: in_traversePaths_props)
qed

lemma traversePaths_nonempty: "(q, w) \<in> set (traversePaths t) \<Longrightarrow> q \<noteq> []"
  by (erule in_traversePathsE) simp

lemma distinct_keys_props_unique:
  "distinct_keys_props ps \<Longrightarrow> (k, v) \<in> set ps \<Longrightarrow> (k, v') \<in> set ps \<Longrightarrow> v = v'"
  by (induction ps) (force simp: image_iff)+

lemma distinct_keys_props_child:
  "distinct_keys_props ps \<Longrightarrow> (k, v) \<in> set ps \<Longrightarrow> distinct_keys v"
  by (induction ps) auto

lemma no_node_below_leaf:
  assumes "distinct_keys t" and "(d, w) \<in> set (traversePaths t)" and "\<not> plain_object w"
    and "(q, x) \<in> set (traversePaths t)" and "prefix d q"
  shows "q = d"
  using assms
proof (induction d arbitrary: t q)
  case Nil
  then show ?case using traversePaths_nonempty by blast
next
  case (Cons k r)
  from Cons.prems(2) obtain ps where t: "t = Object False ps"
    by (auto elim: in_traversePathsE)
  with Cons.prems(2) have "(k # r, w) \<in> set (traversePaths_props ps)"
    by simp
  then obtain v where kv: "(k, v) \<in> set ps"
      and d: "(r = [] \<and> w = v) \<or> (r, w) \<in> set (traversePaths v)"
    unfolding in_traversePaths_props by auto
  from Cons.prems(5) obtain r' where q: "q = k # r'" and pre: "prefix r r'"
    by (cases q) auto
  from Cons.prems(4) t q have "(k # r', x) \<in> set (traversePaths_props ps)"
    by simp
  then obtain v' where kv': "(k, v') \<in> set ps"
      and x: "(r' = [] \<and> x = v') \<or> (r', x) \<in> set (traversePaths v')"
    unfolding in_traversePaths_props by auto
  have dk: "distinct_keys_props ps"
    using Cons.prems(1) t by simp
  have same: "v' = v"
    using distinct_keys_props_unique[OF dk kv' kv] .
  show ?case
  proof (cases "r = []")
    case True
    then have "w = v"
      using d traversePaths_nonempty by blast
    then have "traversePaths v = []"
      using Cons.prems(3) by (simp add: traversePaths_not_plain)
    then have "r' = []"
      using x same by auto
    then show ?thesis
      using True q by simp
  next
    case False
    then have rw: "(r, w) \<in> set (traversePaths v)"
      using d by simp
    have "r' \<noteq> []"
      using False pre by auto
    then have "(r', x) \<in> set (traversePaths v)"
      using x same by simp
    then have "r' = r"
      using Cons.IH[OF distinct_keys_props_child[OF dk kv] rw Cons.prems(3) _ pre] by simp
    then show ?thesis
      using q by simp
  qed
qed


lemma in_update_set:
  "(a, b) \<in> set (AList.update k y ps) \<Longrightarrow> (a, b) \<in> set ps \<or> (a = k \<and> b = y)"
  by (induction ps) (auto split: if_splits)

lemma in_traversePaths_props_update:
  assumes "(q, w) \<in> set (traversePaths_props (AList.update k y ps))"
  shows "(q, w) \<in> set (traversePaths_props ps) \<or> (q = [k] \<and> w = y)
         \<or> (\<exists>r. q = k # r \<and> (r, w) \<in> set (traversePaths y))"
  using assms unfolding in_traversePaths_props
  by (auto dest!: in_update_set)

lemma setPath_kind:
  assumes "is_container t"
  shows "is_container (setPath t d f) \<and> isArray (setPath t d f) = isArray t"
proof -
  obtain a ps where "t = Object a ps"
    using assms by (cases t) auto
  then show ?thesis
    by (cases "(t, d, f)" rule: setPath.cases) auto
qed

lemma setPath_not_container: "\<not> is_container t \<Longrightarrow> setPath t d f = t"
  by (cases "(t, d, f)" rule: setPath.cases) (auto elim: is_container.elims)


section \<open>Properties of updateErrors\<close>

text \<open>
  Claim C5. With \<open>force = true\<close>, \<open>updateErrors\<close> returns \<open>New\<close> as it is and leaves
  \<open>Previous\<close> as it was.
\<close>

theorem updateErrors_force:
  "updateErrors New Previous True = (New, Previous)"
  by (simp add: updateErrors_def)

lemma map_of_traversePaths_set_props:
  "map_of (traversePaths_set_props f ps pre) k =
     map_option (\<lambda>v. case f (pre @ [k]) v of Some v' \<Rightarrow> v' | None \<Rightarrow> traversePaths_set f v (pre @ [k]))
       (map_of ps k)"
  by (induction ps) (auto split: option.splits)
























section \<open>The state of a form (superForm.js)\<close>

text \<open>
  The event that \<open>NextChange\<close> holds and \<open>Form_clientValidation\<close> receives: the changed
  paths, the type of the HTML event when there was one (\<open>'input'\<close> or \<open>'blur'\<close>), the
  flags \<open>immediate\<close> and \<open>multiple\<close> read for their truthiness, whether a form element
  came with the event, and what kind of element the target is.
\<close>

datatype event_type = Input | Blur

datatype target_kind = NoTarget | FileInput | OtherElement

record change_event =
  ev_paths :: "path list"
  ev_type :: "event_type option"
  ev_immediate :: bool
  ev_multiple :: bool
  ev_formElement :: bool
  ev_target :: target_kind

text \<open>
  The mutable state of one \<open>superForm\<close>: \<open>Data.form\<close>, \<open>Data.errors\<close> (the value of the
  \<open>Errors\<close> store, which \<open>Data.errors\<close> clones at every change), \<open>Data.tainted\<close> (the
  value of \<open>Tainted.state\<close>, \<open>undefined\<close> until something is tainted), \<open>Tainted.clean\<close>,
  \<open>NextChange\<close> and the number of client validations that \<open>setTimeout\<close> has queued.
\<close>

record form_state =
  data_form :: jsval
  data_errors :: jsval
  data_tainted :: jsval
  tainted_clean :: jsval
  nextChange :: "change_event option"
  queued_validations :: nat

text \<open>
  Modelled from the spec: \<open>comparePaths(a, b)\<close> (traversal.js) is a ``deep-equality diff
  producing every leaf path whose value differs (order: depth-first, field declaration/
  array order), treating two arrays as different if lengths differ or any element
  (recursively) differs''. A leaf is a visited node that is not a plain object; its value
  differs when the other tree has another value at the path (\<open>undefined\<close> when the path
  does not exist there). The leaves of the first tree come first, then those of the second
  that are not listed yet.
\<close>

definition leaf_paths :: "jsval \<Rightarrow> (path \<times> jsval) list" where
  "leaf_paths t = filter (\<lambda>(p, v). \<not> (is_container v \<and> \<not> isArray v)) (traversePaths t)"

definition value_at :: "jsval \<Rightarrow> path \<Rightarrow> jsval" where
  "value_at t p = (case pathExists t p of None \<Rightarrow> Undefined | Some (parent, key, v) \<Rightarrow> v)"

definition differing :: "jsval \<Rightarrow> jsval \<Rightarrow> path list" where
  "differing a b = map fst (filter (\<lambda>(p, v). value_at b p \<noteq> v) (leaf_paths a))"

definition comparePaths :: "jsval \<Rightarrow> jsval \<Rightarrow> path list" where
  "comparePaths newObj oldObj =
     differing newObj oldObj
       @ filter (\<lambda>p. p \<notin> set (differing newObj oldObj)) (differing oldObj newObj)"

text \<open>
  \<^verbatim>\<open>
  function NextChange_setHtmlEvent(event) {
      if (NextChange && event && Object.keys(event).length == 1 && event.paths?.length &&
          NextChange.target && NextChange.target instanceof HTMLInputElement &&
          NextChange.target.type.toLowerCase() == 'file') {
          NextChange.paths = event.paths;
      } else {
          NextChange = event;
      }
      setTimeout(() => { Form_clientValidation(NextChange); }, 0);
  }
  \<close>
  Its only caller passes \<open>{ paths }\<close>, an event of one key.
\<close>

definition NextChange_setHtmlEvent :: "path list \<Rightarrow> form_state \<Rightarrow> form_state" where
  "NextChange_setHtmlEvent paths st =
     (let next =
        (case nextChange st of
           Some nc \<Rightarrow>
             if paths \<noteq> [] \<and> ev_target nc = FileInput
             then nc\<lparr>ev_paths := paths\<rparr>
             else \<lparr>ev_paths = paths, ev_type = None, ev_immediate = False,
                   ev_multiple = False, ev_formElement = False, ev_target = NoTarget\<rparr>
         | None \<Rightarrow>
             \<lparr>ev_paths = paths, ev_type = None, ev_immediate = False,
              ev_multiple = False, ev_formElement = False, ev_target = NoTarget\<rparr>)
      in st\<lparr>nextChange := Some next, queued_validations := Suc (queued_validations st)\<rparr>)"

text \<open>
  The taint option of \<open>Form.set\<close> and \<open>Form.update\<close>: a boolean, \<open>'untaint'\<close>,
  \<open>'untaint-all'\<close>, \<open>'untaint-form'\<close>, or \<open>'ignore'\<close>.
\<close>

datatype taint_option = Taint bool | Untaint | UntaintAll | UntaintForm | Ignore

text \<open>
  \<open>a === b\<close> for two values that come from different trees: equal primitives; two
  objects or arrays are never the same object.
\<close>

definition strict_equal :: "jsval \<Rightarrow> jsval \<Rightarrow> bool" where
  "strict_equal a b = (a = b \<and> \<not> is_container a)"

text \<open>
  The updater that \<open>Tainted_update\<close> hands to \<open>setPaths\<close>:
  \<^verbatim>\<open>
  (path, data) => {
      // If value goes back to the clean value, untaint the path
      if (!newTainted.includes(path.join())) return undefined;
      const currentValue = traversePath(newData, path);
      const cleanPath = traversePath(Tainted.clean, path);
      return currentValue && cleanPath && currentValue.value === cleanPath.value
          ? undefined
          : taintOptions === true ? true
          : taintOptions === 'untaint' ? undefined
          : data.value;
  }
  \<close>
\<close>

definition taint_updater ::
  "jsval \<Rightarrow> jsval \<Rightarrow> string list \<Rightarrow> taint_option \<Rightarrow> path \<Rightarrow> jsval \<Rightarrow> jsval" where
  "taint_updater newData clean newTainted taintOptions p previous =
     (if join_with '','' p \<notin> set newTainted then Undefined
      else case (snd (traversePath no_visitor newData p), snd (traversePath no_visitor clean p)) of
             (Some (pp, parent, key, currentValue), Some (pp', parent', key', cleanValue)) \<Rightarrow>
               if strict_equal currentValue cleanValue then Undefined
               else if taintOptions = Taint True then Boolean True
               else if taintOptions = Untaint then Undefined
               else previous
           | _ \<Rightarrow>
               if taintOptions = Taint True then Boolean True
               else if taintOptions = Untaint then Undefined
               else previous)"

text \<open>
  \<^verbatim>\<open>
  function Tainted_update(newData, taintOptions) {
      if (taintOptions == 'ignore') return;
      const paths = comparePaths(newData, Data.form);
      const newTainted = comparePaths(newData, Tainted.clean).map((path) => path.join());
      if (paths.length) {
          if (taintOptions == 'untaint-all' || taintOptions == 'untaint-form') {
              Tainted.state.set(undefined);
          } else {
              Tainted.state.update((currentlyTainted) => {
                  if (!currentlyTainted) currentlyTainted = {};
                  setPaths(currentlyTainted, paths, updater);
                  return currentlyTainted;
              });
          }
      }
      NextChange_setHtmlEvent({ paths });
  }
  \<close>
\<close>

definition Tainted_update :: "jsval \<Rightarrow> taint_option \<Rightarrow> form_state \<Rightarrow> form_state" where
  "Tainted_update newData taintOptions st =
     (if taintOptions = Ignore then st
      else let paths = comparePaths newData (data_form st);
               newTainted = map (join_with '','') (comparePaths newData (tainted_clean st));
               st1 = (if paths \<noteq> []
                      then if taintOptions = UntaintAll \<or> taintOptions = UntaintForm
                           then st\<lparr>data_tainted := Undefined\<rparr>
                           else st\<lparr>data_tainted :=
                                  setPaths (if \<not> truthy (data_tainted st) then empty_object
                                            else data_tainted st)
                                    paths
                                    (taint_updater newData (tainted_clean st) newTainted taintOptions)\<rparr>
                      else st)
           in NextChange_setHtmlEvent paths st1)"

text \<open>
  \<open>Form.set(value, options)\<close>: the taint is updated against the data as it was, then the
  store takes the new data. \<open>options.taint ?? true\<close> is the caller's part.
\<close>

definition Form_set :: "jsval \<Rightarrow> taint_option \<Rightarrow> form_state \<Rightarrow> form_state" where
  "Form_set newData taint st = (Tainted_update newData taint st)\<lparr>data_form := newData\<rparr>"

section \<open>Properties of the taint update\<close>

text \<open>
  Claim C8. With the policy \<open>'ignore'\<close> the taint update returns at once: the tainted
  tree, the clean snapshot and everything else of the state are as they were, for every
  new data and every state. A \<open>Form.set\<close> with that policy stores the new data and
  leaves the tainted tree, the clean snapshot and the pending change event alone.
\<close>

theorem Tainted_update_ignore:
  "Tainted_update newData Ignore st = st
   \<and> Form_set newData Ignore st = st\<lparr>data_form := newData\<rparr>
   \<and> data_tainted (Form_set newData Ignore st) = data_tainted st
   \<and> tainted_clean (Form_set newData Ignore st) = tainted_clean st
   \<and> nextChange (Form_set newData Ignore st) = nextChange st"
  by (simp add: Tainted_update_def Form_set_def)


text \<open>
  Claim C3, evaluated. The clean data is \<open>{'a,b': 0}\<close>. A first update (policy \<open>true\<close>)
  sets \<open>'a,b'\<close> to 1 and adds the field \<open>a.b\<close>; a second one removes \<open>a\<close> again, so
  that \<open>a.b\<close> is back at its clean value (absent in both). \<open>a.b\<close> is the only changed
  path of the second update and is not among the paths that still differ from the clean
  data (\<open>['a,b']\<close> is), but \<open>['a','b'].join()\<close> and \<open>['a,b'].join()\<close> are the same string
  \<open>'a,b'\<close>, so the updater does not return \<open>undefined\<close>: \<open>a.b\<close> stays tainted. With
  the key \<open>c\<close> in the place of \<open>'a,b'\<close> the same two updates leave \<open>a.b\<close> undefined.
\<close>

theorem Tainted_update_join_collision:
  "comparePaths (Object False [(''a,b'', Number 1)])
     (Object False [(''a,b'', Number 1), (''a'', Object False [(''b'', Number 1)])])
     = [[''a'', ''b'']]
   \<and> comparePaths (Object False [(''a,b'', Number 1)]) (Object False [(''a,b'', Number 0)])
       = [[''a,b'']]
   \<and> value_at (Object False [(''a,b'', Number 1)]) [''a'', ''b'']
       = value_at (Object False [(''a,b'', Number 0)]) [''a'', ''b'']
   \<and> data_tainted
        (Form_set (Object False [(''a,b'', Number 1)]) (Taint True)
          (Form_set (Object False [(''a,b'', Number 1), (''a'', Object False [(''b'', Number 1)])])
             (Taint True)
             \<lparr>data_form = Object False [(''a,b'', Number 0)], data_errors = Object False [],
              data_tainted = Undefined, tainted_clean = Object False [(''a,b'', Number 0)],
              nextChange = None, queued_validations = 0\<rparr>))
       = Object False [(''a,b'', Boolean True), (''a'', Object False [(''b'', Boolean True)])]
   \<and> data_tainted
        (Form_set (Object False [(''c'', Number 1)]) (Taint True)
          (Form_set (Object False [(''c'', Number 1), (''a'', Object False [(''b'', Number 1)])])
             (Taint True)
             \<lparr>data_form = Object False [(''c'', Number 0)], data_errors = Object False [],
              data_tainted = Undefined, tainted_clean = Object False [(''c'', Number 0)],
              nextChange = None, queued_validations = 0\<rparr>))
       = Object False [(''c'', Boolean True), (''a'', Object False [(''b'', Undefined)])]"
  by code_simp

section \<open>Reading the request (formData.js)\<close>

text \<open>
  What \<open>parseRequest\<close> returns: \<open>{id, data, posted}\<close>.
\<close>

record parsed_form =
  parsed_id :: "string option"
  parsed_data :: jsval
  parsed_posted :: bool

text \<open>
  A \<open>Request\<close> is read through \<open>await request.formData()\<close>, which gives the form data
  or throws. The other kinds of data that \<open>parseRequest\<close> tells apart are a
  \<open>FormData\<close>, a \<open>URL\<close> or \<open>URLSearchParams\<close> (their entries), a \<open>RequestEvent\<close> (its
  request) and anything else.
\<close>

record request =
  request_formData :: "js_error + form_data"

datatype request_data =
    DataFormData form_data
  | DataSearchParams "(string \<times> js_string) list"
  | DataRequest request
  | DataRequestEvent request
  | DataOther jsval

text \<open>\<open>s.includes(sub)\<close>.\<close>

fun str_includes :: "string \<Rightarrow> string \<Rightarrow> bool" where
  "str_includes [] sub = (sub = [])"
| "str_includes (c # cs) sub = (prefix sub (c # cs) \<or> str_includes cs sub)"

text \<open>
  \<^verbatim>\<open>
  async function tryParseFormData(request, schemaData, options) {
      let formData = undefined;
      try {
          formData = await request.formData();
      } catch (e) {
          if (e instanceof TypeError && e.message.includes('already been consumed')) {
              // Pass through the "body already consumed" error, which applies to
              // POST requests when event/request is used after formData has been fetched.
              throw e;
          }
          // No data found, return an empty form
          return { id: undefined, data: undefined, posted: false };
      }
      return parseFormData(formData, schemaData, options);
  }
  \<close>
  \<open>parseFormData\<close> needs the schema helpers and the \<open>devalue\<close> parser, which are not
  among the sources; it is a parameter here, with the schema and the options inside.
\<close>

definition body_already_consumed :: "js_error \<Rightarrow> bool" where
  "body_already_consumed e =
     (case e of TypeError msg \<Rightarrow> str_includes msg ''already been consumed'' | _ \<Rightarrow> False)"

definition empty_form :: parsed_form where
  "empty_form = \<lparr>parsed_id = None, parsed_data = Undefined, parsed_posted = False\<rparr>"

definition tryParseFormData ::
  "(form_data \<Rightarrow> js_error + parsed_form) \<Rightarrow> request \<Rightarrow> js_error + parsed_form" where
  "tryParseFormData parseFormData req =
     (case request_formData req of
        Inl e \<Rightarrow> if body_already_consumed e then Inl e else Inr empty_form
      | Inr formData \<Rightarrow> parseFormData formData)"

text \<open>
  \<open>parseSearchParams\<close> copies the entries into a \<open>FormData\<close>, parses it and sets
  \<open>posted\<close> to false.
\<close>

definition parseSearchParams ::
  "(form_data \<Rightarrow> js_error + parsed_form) \<Rightarrow> (string \<times> js_string) list \<Rightarrow> js_error + parsed_form" where
  "parseSearchParams parseFormData entries =
     (case parseFormData (foldl (\<lambda>convert (key, v). fd_append convert key (Text v)) [] entries) of
        Inl e \<Rightarrow> Inl e
      | Inr output \<Rightarrow> Inr (output\<lparr>parsed_posted := False\<rparr>))"

definition parseRequest ::
  "(form_data \<Rightarrow> js_error + parsed_form) \<Rightarrow> request_data \<Rightarrow> js_error + parsed_form" where
  "parseRequest parseFormData d =
     (case d of
        DataFormData formData \<Rightarrow> parseFormData formData
      | DataSearchParams entries \<Rightarrow> parseSearchParams parseFormData entries
      | DataRequest req \<Rightarrow> tryParseFormData parseFormData req
      | DataRequestEvent req \<Rightarrow> tryParseFormData parseFormData req
      | DataOther v \<Rightarrow> Inr \<lparr>parsed_id = None, parsed_data = v, parsed_posted = False\<rparr>)"

section \<open>Properties of the request parsing\<close>

text \<open>
  Claim C7, as amended. For every request whose \<open>formData()\<close> fails, \<open>tryParseFormData\<close>
  and \<open>parseRequest\<close> (on the request or on an event that holds it) return the empty
  form \<open>{id: undefined, data: undefined, posted: false}\<close> and do not throw, unless the
  failure is a TypeError whose message contains \<open>already been consumed\<close>: that error is
  thrown on to the caller.
\<close>

theorem tryParseFormData_failure:
  assumes "request_formData req = Inl e"
  shows "tryParseFormData parseFormData req =
           (if body_already_consumed e then Inl e else Inr empty_form)
         \<and> parseRequest parseFormData (DataRequest req) = tryParseFormData parseFormData req
         \<and> parseRequest parseFormData (DataRequestEvent req) = tryParseFormData parseFormData req"
  using assms by (simp add: tryParseFormData_def parseRequest_def)

theorem tryParseFormData_failure_witness:
  "request_formData \<lparr>request_formData = Inl (OtherError ''Could not parse content as FormData.'')\<rparr>
     = Inl (OtherError ''Could not parse content as FormData.'')
   \<and> tryParseFormData (\<lambda>fd. Inl (SchemaError ''unused''))
        \<lparr>request_formData = Inl (OtherError ''Could not parse content as FormData.'')\<rparr>
     = Inr \<lparr>parsed_id = None, parsed_data = Undefined, parsed_posted = False\<rparr>"
  using tryParseFormData_failure[of
          "\<lparr>request_formData = Inl (OtherError ''Could not parse content as FormData.'')\<rparr>"
          "OtherError ''Could not parse content as FormData.''" "\<lambda>fd. Inl (SchemaError ''unused'')"]
  by (simp add: body_already_consumed_def empty_form_def)

text \<open>
  Claim C7 as stated fails: a request whose body was read before cannot be parsed as form
  data, and \<open>tryParseFormData\<close> throws instead of returning the empty form.
\<close>

theorem tryParseFormData_failure_counterexample:
  "tryParseFormData (\<lambda>fd. Inr empty_form)
     \<lparr>request_formData = Inl (TypeError ''Body has already been consumed.'')\<rparr>
   = Inl (TypeError ''Body has already been consumed.'')"
  by (simp add: tryParseFormData_def body_already_consumed_def)


section \<open>Client-side validation (superForm.js)\<close>

subsection \<open>Options, validators and what a run does\<close>

text \<open>
  The options that the validation reads. \<open>validators\<close> is an adapter object, \<open>'clear'\<close>,
  or \<open>false\<close>/\<open>undefined\<close>. An adapter validates the data to a success with data or to a
  failure with issues; it may carry a shape, has the field \<open>jsonSchema\<close> when it is a full
  adapter, and is or is not the object that \<open>options.validators\<close> held when the form was
  created (\<open>initialValidator\<close>).
\<close>

datatype validation_method = Auto | OnInput | OnBlur | OnSubmit | SubmitOnly

datatype validation_status = Success jsval | Failure "issue list"

record adapter =
  ad_validate :: "jsval \<Rightarrow> validation_status"
  ad_shape :: "jsval option"
  ad_jsonSchema :: bool
  ad_initial :: bool

datatype validators_option = NoValidators | ClearValidators | Adapter adapter

record options =
  opt_validators :: validators_option
  opt_validationMethod :: validation_method
  opt_shape :: "jsval option"
  opt_enhanced :: bool

text \<open>
  \<open>opt_shape\<close> stands for \<open>Data.shape\<close> and \<open>opt_enhanced\<close> for \<open>EnhancedForm\<close> being
  set; neither changes during a validation. What a run does besides changing the state is
  recorded in order: a call of \<open>validator.validate\<close> with its data, a call of
  \<open>Form__clearCustomValidity\<close> with its paths, and the \<open>setTimeout\<close> that queues
  \<open>Form__changeEvent\<close>. A run that throws keeps what it did before.
\<close>

datatype effect =
    ValidatorCalled jsval
  | CustomValidityCleared "path list"
  | ChangeEventQueued

record validated =
  v_valid :: bool
  v_errors :: jsval
  v_data :: jsval

subsection \<open>The error store\<close>

text \<open>
  \<^verbatim>\<open>
  set(value, options) { return _errors.set(updateErrors(value, Data.errors, options?.force)); }
  update(updater, options) {
      return _errors.update((value) => updateErrors(updater(value), Data.errors, options?.force));
  }
  \<close>
\<close>

definition Errors_set :: "jsval \<Rightarrow> bool \<Rightarrow> form_state \<Rightarrow> form_state" where
  "Errors_set v force st = st\<lparr>data_errors := fst (updateErrors v (data_errors st) force)\<rparr>"

definition Errors_update :: "(jsval \<Rightarrow> jsval) \<Rightarrow> bool \<Rightarrow> form_state \<Rightarrow> form_state" where
  "Errors_update updater force st =
     st\<lparr>data_errors := fst (updateErrors (updater (data_errors st)) (data_errors st) force)\<rparr>"

subsection \<open>Paths as strings (stringPath.js)\<close>

text \<open>
  Modelled from the spec: \<open>stringPath.js\<close> is not among the sources. Section 4.1:
  \<open>split\<close> ``splits on . and [...] bracket syntax'', \<open>merge\<close> ``joins segments with .,
  rendering pure-numeric segments in bracket form''.
\<close>

definition numeric_segment :: "string \<Rightarrow> bool" where
  "numeric_segment s = (s \<noteq> [] \<and> list_all is_digit s)"

definition mergePath :: "path \<Rightarrow> string" where
  "mergePath p =
     foldl (\<lambda>acc key. if numeric_segment key then acc @ ''['' @ key @ '']''
                       else if acc = [] then key else acc @ ''.'' @ key) [] p"

fun split_on :: "char list \<Rightarrow> string \<Rightarrow> string \<Rightarrow> string list" where
  "split_on seps cur [] = [cur]"
| "split_on seps cur (c # cs) =
     (if c \<in> set seps then cur # split_on seps [] cs else split_on seps (cur @ [c]) cs)"

definition splitPath :: "string \<Rightarrow> path" where
  "splitPath s = filter (\<lambda>seg. seg \<noteq> []) (split_on ''.[]'' [] s)"

subsection \<open>Taint history\<close>

text \<open>
  \<^verbatim>\<open>
  function Tainted_hasBeenTainted(path) {
      if (!Data.tainted) return false;
      if (!path) return !!Data.tainted;
      const field = pathExists(Data.tainted, splitPath(path));
      return !!field && field.key in field.parent;
  }
  \<close>
\<close>

definition has_key_at :: "jsval \<Rightarrow> path \<Rightarrow> bool" where
  "has_key_at t p =
     (case pathExists t p of None \<Rightarrow> False | Some (parent, key, v) \<Rightarrow> has_prop parent key)"

definition Tainted_hasBeenTainted :: "form_state \<Rightarrow> string \<Rightarrow> bool" where
  "Tainted_hasBeenTainted st p =
     (if \<not> truthy (data_tainted st) then False
      else if p = [] then truthy (data_tainted st)
      else has_key_at (data_tainted st) (splitPath p))"

subsection \<open>Which new errors are displayed\<close>

text \<open>
  The callback of \<open>Form__displayNewErrors\<close> decides for every array node of the new error
  tree whether \<open>addError\<close> is called. In the order of the source:
  \<^verbatim>\<open>
  const currentPath = [...error.path];
  if (currentPath[currentPath.length - 1] == '_errors') currentPath.pop();
  const joinedPath = currentPath.join('.');
  if (force) return addError();
  const lastPath = error.path[error.path.length - 1];
  const isObjectError = lastPath == '_errors';
  const isEventError = error.value && paths.some((path) => {
      return isObjectError
          ? currentPath && path && currentPath.length > 0 && currentPath[0] == path[0]
          : joinedPath == path.join('.');
  });
  if (isEventError && options.validationMethod == 'oninput') return addError();
  if (immediate && !multiple && isEventError) return addError();
  if (multiple) {
      const errorPath = pathExists(get(Errors), error.path.slice(0, -1));
      if (errorPath?.value && typeof errorPath?.value == 'object') {
          for (const errors of Object.values(errorPath.value)) {
              if (Array.isArray(errors)) return addError();
          }
      }
  }
  const previousError = pathExists(previous, error.path);
  if (previousError && previousError.key in previousError.parent) return addError();
  if (isObjectError) {
      if (options.validationMethod == 'oninput' ||
          (type == 'blur' && Tainted_hasBeenTainted(mergePath(error.path.slice(0, -1)))))
          return addError();
  } else {
      if (type == 'blur' && isEventError) return addError();
  }
  \<close>
  The path of a visited node is never empty. \<open>previous\<close> is \<open>Data.errors\<close>, and
  \<open>get(Errors)\<close> has the same content.
\<close>

definition isObjectError :: "path \<Rightarrow> bool" where
  "isObjectError p = (p \<noteq> [] \<and> last p = ''_errors'')"

definition currentPath :: "path \<Rightarrow> path" where
  "currentPath p = (if isObjectError p then butlast p else p)"

definition isEventError :: "change_event \<Rightarrow> path \<Rightarrow> jsval \<Rightarrow> bool" where
  "isEventError event p v =
     (truthy v \<and>
      list_ex (\<lambda>q. if isObjectError p
                    then currentPath p \<noteq> [] \<and> q \<noteq> [] \<and> hd (currentPath p) = hd q
                    else join_with ''.'' (currentPath p) = join_with ''.'' q)
        (ev_paths event))"

text \<open>\<open>Object.values(v)\<close> of an object or array.\<close>

fun object_values :: "jsval \<Rightarrow> jsval list" where
  "object_values (Object a ps) = map snd ps"
| "object_values v = []"

definition sibling_displayed :: "form_state \<Rightarrow> path \<Rightarrow> bool" where
  "sibling_displayed st p =
     (case pathExists (data_errors st) (butlast p) of
        None \<Rightarrow> False
      | Some (parent, key, v) \<Rightarrow> is_container v \<and> list_ex isArray (object_values v))"

definition displays ::
  "options \<Rightarrow> form_state \<Rightarrow> change_event \<Rightarrow> bool \<Rightarrow> path \<Rightarrow> jsval \<Rightarrow> bool" where
  "displays opts st event force p v =
     (if force then True
      else if isEventError event p v \<and> opt_validationMethod opts = OnInput then True
      else if ev_immediate event \<and> \<not> ev_multiple event \<and> isEventError event p v then True
      else if ev_multiple event \<and> sibling_displayed st p then True
      else if has_key_at (data_errors st) p then True
      else if isObjectError p
           then opt_validationMethod opts = OnInput
                \<or> (ev_type event = Some Blur \<and> Tainted_hasBeenTainted st (mergePath (butlast p)))
           else ev_type event = Some Blur \<and> isEventError event p v)"

text \<open>
  \<^verbatim>\<open>
  async function Form__displayNewErrors(errors, event, force) {
      const { type, immediate, multiple, paths } = event;
      const previous = Data.errors;
      const output = {};
      let validity = new Map();
      const formElement = event.formElement ?? EnhancedForm;
      if (formElement) validity = Form__clearCustomValidity(formElement, event.paths);
      traversePaths(errors, (error) => {
          if (!Array.isArray(error.value)) return;
          ...
          function addError() { setPaths(output, [error.path], error.value); ... }
          ...
      });
      Errors.set(output);
  }
  \<close>
  The custom validity of the DOM elements, which \<open>addError\<close> also updates, is outside
  the model.
\<close>

definition display_visitor ::
  "options \<Rightarrow> form_state \<Rightarrow> change_event \<Rightarrow> bool \<Rightarrow> jsval \<Rightarrow> path \<times> jsval \<Rightarrow> jsval" where
  "display_visitor opts st event force output error =
     (case error of (p, v) \<Rightarrow>
        if \<not> isArray v then output
        else if displays opts st event force p v then setPaths output [p] (literal v)
        else output)"

definition Form__displayNewErrors ::
  "options \<Rightarrow> jsval \<Rightarrow> change_event \<Rightarrow> bool \<Rightarrow> form_state \<Rightarrow> effect list \<times> form_state" where
  "Form__displayNewErrors opts errs event force st =
     (let did = (if ev_formElement event \<or> opt_enhanced opts
                 then [CustomValidityCleared (ev_paths event)] else []);
          output = foldl (display_visitor opts st event force) empty_object (traversePaths errs)
      in (did, Errors_set output False st))"


subsection \<open>Validating the form\<close>

text \<open>\<open>{...a, ...b, ...c}\<close>: the properties of the spread objects, later ones winning.\<close>

fun own_props :: "jsval \<Rightarrow> props" where
  "own_props (Object a ps) = ps"
| "own_props v = []"

definition object_spread :: "jsval list \<Rightarrow> jsval" where
  "object_spread vs =
     foldl (\<lambda>acc v. foldl (\<lambda>obj (k, x). put_prop obj k x) acc (own_props v)) empty_object vs"

text \<open>
  \<^verbatim>\<open>
  async function Form_validate(opts = {}) {
      const dataToValidate = opts.formData ?? Data.form;
      let errors = {};
      let status;
      const validator = opts.adapter ?? options.validators;
      if (typeof validator == 'object') {
          if (validator != initialValidator && !('jsonSchema' in validator)) {
              throw new SuperFormError('Client validation adapter found in options.validators. ...');
          }
          status = await validator.validate(dataToValidate);
          if (!status.success) {
              errors = mapErrors(status.issues, validator.shape ?? Data.shape ?? {});
          } else if (opts.recheckValidData !== false) {
              return Form_validate({ ...opts, recheckValidData: false });
          }
      } else {
          status = { success: true, data: {} };
      }
      const data = { ...Data.form, ...dataToValidate, ...(status.success ? status.data : {}) };
      return { valid: status.success, posted: false, errors, data, ... };
  }
  \<close>
  The run is modelled without another event in between its steps. The first of the two
  arguments after the options is \<open>opts.adapter\<close>, the second \<open>opts.formData\<close>.
\<close>

definition chosen_validator :: "options \<Rightarrow> adapter option \<Rightarrow> validators_option" where
  "chosen_validator opts adapterOpt =
     (case adapterOpt of Some a \<Rightarrow> Adapter a | None \<Rightarrow> opt_validators opts)"

definition wrong_adapter :: js_error where
  "wrong_adapter = SuperFormError ''Client validation adapter found in options.validators.''"

definition Form_validate_last ::
  "options \<Rightarrow> adapter option \<Rightarrow> jsval option \<Rightarrow> form_state
    \<Rightarrow> effect list \<times> (js_error + validated)" where
  "Form_validate_last opts adapterOpt formData st =
     (let dataToValidate = (case formData of Some d \<Rightarrow> d | None \<Rightarrow> data_form st)
      in case chosen_validator opts adapterOpt of
           Adapter validator \<Rightarrow>
             if \<not> ad_initial validator \<and> \<not> ad_jsonSchema validator then ([], Inl wrong_adapter)
             else (case ad_validate validator dataToValidate of
                     Failure issues \<Rightarrow>
                       (case mapErrors issues
                               (case ad_shape validator of
                                  Some sh \<Rightarrow> sh
                                | None \<Rightarrow> (case opt_shape opts of Some sh \<Rightarrow> sh
                                                                 | None \<Rightarrow> empty_object)) of
                          Inl e \<Rightarrow> ([ValidatorCalled dataToValidate], Inl e)
                        | Inr errs \<Rightarrow>
                            ([ValidatorCalled dataToValidate],
                             Inr \<lparr>v_valid = False, v_errors = errs,
                                  v_data = object_spread [data_form st, dataToValidate, empty_object]\<rparr>))
                   | Success d \<Rightarrow>
                       ([ValidatorCalled dataToValidate],
                        Inr \<lparr>v_valid = True, v_errors = empty_object,
                             v_data = object_spread [data_form st, dataToValidate, d]\<rparr>))
         | _ \<Rightarrow>
             ([], Inr \<lparr>v_valid = True, v_errors = empty_object,
                       v_data = object_spread [data_form st, dataToValidate, empty_object]\<rparr>))"

text \<open>
  With \<open>recheckValidData\<close> not false, data that validates is validated a second time.
\<close>

definition Form_validate ::
  "options \<Rightarrow> adapter option \<Rightarrow> jsval option \<Rightarrow> form_state
    \<Rightarrow> effect list \<times> (js_error + validated)" where
  "Form_validate opts adapterOpt formData st =
     (case Form_validate_last opts adapterOpt formData st of
        (did, Inr result) \<Rightarrow>
          (case chosen_validator opts adapterOpt of
             Adapter validator \<Rightarrow>
               if v_valid result
               then (case Form_validate_last opts adapterOpt formData st of
                       (did', r) \<Rightarrow> (did @ did', r))
               else (did, Inr result)
           | _ \<Rightarrow> (did, Inr result))
      | (did, Inl e) \<Rightarrow> (did, Inl e))"

subsection \<open>The validation that an event triggers\<close>

text \<open>
  \<^verbatim>\<open>
  async function Form_clientValidation(event, force = false, adapter) {
      if (event) {
          if (options.validators == 'clear') {
              Errors.update(($errors) => { setPaths($errors, event.paths, undefined); return $errors; });
          }
          setTimeout(() => Form__changeEvent(event));
      }
      let skipValidation = false;
      if (!force) {
          if (options.validationMethod == 'onsubmit' || options.validationMethod == 'submit-only') {
              skipValidation = true;
          }
          else if (options.validationMethod == 'onblur' && event?.type == 'input') skipValidation = true;
          else if (options.validationMethod == 'oninput' && event?.type == 'blur') skipValidation = true;
      }
      if (skipValidation || !event || !options.validators || options.validators == 'clear') {
          if (event?.paths) {
              const formElement = event?.formElement ?? EnhancedForm;
              if (formElement) Form__clearCustomValidity(formElement, event.paths);
          }
          return;
      }
      const result = await Form_validate({ adapter });
      if (result.valid && (event.immediate || event.type != 'input')) {
          Form.set(result.data, { taint: 'ignore' });
      }
      await tick();
      Form__displayNewErrors(result.errors, event, force);
      return result;
  }
  \<close>
  The model returns what the run did and either the error it threw or the state it left
  with its return value (\<open>None\<close> for \<open>undefined\<close>).
\<close>

definition skipValidation :: "options \<Rightarrow> change_event option \<Rightarrow> bool \<Rightarrow> bool" where
  "skipValidation opts event force =
     (\<not> force \<and>
      (opt_validationMethod opts = OnSubmit \<or> opt_validationMethod opts = SubmitOnly
       \<or> (opt_validationMethod opts = OnBlur \<and> map_option ev_type event = Some (Some Input))
       \<or> (opt_validationMethod opts = OnInput \<and> map_option ev_type event = Some (Some Blur))))"

definition validators_clear :: "options \<Rightarrow> bool" where
  "validators_clear opts = (case opt_validators opts of ClearValidators \<Rightarrow> True | _ \<Rightarrow> False)"

definition validators_falsy :: "options \<Rightarrow> bool" where
  "validators_falsy opts = (case opt_validators opts of NoValidators \<Rightarrow> True | _ \<Rightarrow> False)"

definition Form_clientValidation ::
  "options \<Rightarrow> change_event option \<Rightarrow> bool \<Rightarrow> adapter option \<Rightarrow> form_state
    \<Rightarrow> effect list \<times> (js_error + form_state \<times> validated option)" where
  "Form_clientValidation opts event force adapterOpt st =
     (case event of
        None \<Rightarrow> ([], Inr (st, None))
      | Some ev \<Rightarrow>
          let st1 = (if validators_clear opts
                     then Errors_update (\<lambda>errs. setPaths errs (ev_paths ev) (literal Undefined))
                            False st
                     else st)
          in if skipValidation opts event force \<or> validators_falsy opts \<or> validators_clear opts
             then (ChangeEventQueued
                     # (if ev_formElement ev \<or> opt_enhanced opts
                        then [CustomValidityCleared (ev_paths ev)] else []),
                   Inr (st1, None))
             else (case Form_validate opts adapterOpt None st1 of
                     (did, Inl e) \<Rightarrow> (ChangeEventQueued # did, Inl e)
                   | (did, Inr result) \<Rightarrow>
                       let st2 = (if v_valid result
                                     \<and> (ev_immediate ev \<or> ev_type ev \<noteq> Some Input)
                                  then Form_set (v_data result) Ignore st1 else st1);
                           shown = Form__displayNewErrors opts (v_errors result) ev force st2
                       in (ChangeEventQueued # did @ fst shown, Inr (snd shown, Some result))))"

text \<open>
  A sequence of change events, each handled by \<open>Form_clientValidation\<close> without
  \<open>force\<close> and without an adapter of its own, as \<open>NextChange_setHtmlEvent\<close> and the
  blur handler call it. The sequence ends early when a run throws.
\<close>

fun process_events ::
  "options \<Rightarrow> change_event list \<Rightarrow> form_state \<Rightarrow> effect list \<times> (js_error + form_state)" where
  "process_events opts [] st = ([], Inr st)"
| "process_events opts (ev # evs) st =
     (case Form_clientValidation opts (Some ev) False None st of
        (did, Inl e) \<Rightarrow> (did, Inl e)
      | (did, Inr (st', r)) \<Rightarrow>
          (case process_events opts evs st' of (did', out) \<Rightarrow> (did @ did', out)))"


section \<open>Properties of the client-side validation\<close>

lemma skipValidation_onsubmit:
  assumes "opt_validationMethod opts = OnSubmit \<or> opt_validationMethod opts = SubmitOnly"
  shows "skipValidation opts event False"
  using assms by (auto simp: skipValidation_def)

lemma clientValidation_skipped:
  assumes "skipValidation opts event False"
  shows "Form_clientValidation opts event False adapterOpt st =
           (case event of
              None \<Rightarrow> ([], Inr (st, None))
            | Some ev \<Rightarrow>
                (ChangeEventQueued
                   # (if ev_formElement ev \<or> opt_enhanced opts
                      then [CustomValidityCleared (ev_paths ev)] else []),
                 Inr (if validators_clear opts
                      then Errors_update (\<lambda>errs. setPaths errs (ev_paths ev) (literal Undefined))
                             False st
                      else st, None)))"
proof (cases event)
  case None
  then show ?thesis by (simp add: Form_clientValidation_def)
next
  case (Some ev)
  then show ?thesis
    using assms by (simp add: Form_clientValidation_def Let_def)
qed

lemma process_events_skipped:
  assumes "\<And>event. skipValidation opts event False"
  shows "(\<forall>d. ValidatorCalled d \<notin> set (fst (process_events opts events st)))
         \<and> (\<exists>st'. snd (process_events opts events st) = Inr st')"
proof (induction events arbitrary: st)
  case Nil
  then show ?case by simp
next
  case (Cons ev events)
  obtain did st1 where r: "Form_clientValidation opts (Some ev) False None st = (did, Inr (st1, None))"
      and did: "\<forall>d. ValidatorCalled d \<notin> set did"
    using clientValidation_skipped[OF assms, of "Some ev" None st] by auto
  obtain did' out where p: "process_events opts events st1 = (did', out)"
    by (cases "process_events opts events st1")
  with Cons.IH[of st1] have "\<forall>d. ValidatorCalled d \<notin> set did'" "\<exists>st'. out = Inr st'"
    by auto
  then show ?case
    using r did p by auto
qed

text \<open>
  Claim C6. With the validation method \<open>'onsubmit'\<close> or \<open>'submit-only'\<close>, a change event
  handled without \<open>force\<close> never calls \<open>validator.validate\<close>, whatever the event, the
  validators and the state: \<open>skipValidation\<close> is set, the run returns \<open>undefined\<close>
  before \<open>Form_validate\<close>, and all it does after queueing the \<open>onChange\<close> event is the
  clearing of the custom validity (when there is a form element); with a configured
  validator (anything but \<open>'clear'\<close>) the state is left as it was. The same holds for
  every sequence of such events, one after the other. (The submit handler is not a change
  event: it calls \<open>Form_validate\<close> itself.)
\<close>

theorem onsubmit_never_validates:
  assumes "opt_validationMethod opts = OnSubmit \<or> opt_validationMethod opts = SubmitOnly"
  shows "(\<forall>d. ValidatorCalled d \<notin> set (fst (Form_clientValidation opts event False adapterOpt st)))
         \<and> (\<exists>st'. snd (Form_clientValidation opts event False adapterOpt st) = Inr (st', None))
         \<and> fst (Form_clientValidation opts event False adapterOpt st) =
             (case event of
                None \<Rightarrow> []
              | Some ev \<Rightarrow> ChangeEventQueued
                            # (if ev_formElement ev \<or> opt_enhanced opts
                               then [CustomValidityCleared (ev_paths ev)] else []))
         \<and> (\<not> validators_clear opts \<longrightarrow>
               snd (Form_clientValidation opts event False adapterOpt st) = Inr (st, None))
         \<and> (\<forall>d. ValidatorCalled d \<notin> set (fst (process_events opts events st)))
         \<and> (\<exists>st'. snd (process_events opts events st) = Inr st')"
proof -
  have skip: "skipValidation opts ev False" for ev
    using assms by (rule skipValidation_onsubmit)
  have one: "Form_clientValidation opts event False adapterOpt st =
           (case event of
              None \<Rightarrow> ([], Inr (st, None))
            | Some ev \<Rightarrow>
                (ChangeEventQueued
                   # (if ev_formElement ev \<or> opt_enhanced opts
                      then [CustomValidityCleared (ev_paths ev)] else []),
                 Inr (if validators_clear opts
                      then Errors_update (\<lambda>errs. setPaths errs (ev_paths ev) (literal Undefined))
                             False st
                      else st, None)))"
    using skip by (rule clientValidation_skipped)
  have a: "\<forall>d. ValidatorCalled d \<notin> set (fst (Form_clientValidation opts event False adapterOpt st))"
    unfolding one by (cases event) auto
  have b: "\<exists>st'. snd (Form_clientValidation opts event False adapterOpt st) = Inr (st', None)"
    unfolding one by (cases event) auto
  have c: "fst (Form_clientValidation opts event False adapterOpt st) =
             (case event of
                None \<Rightarrow> []
              | Some ev \<Rightarrow> ChangeEventQueued
                            # (if ev_formElement ev \<or> opt_enhanced opts
                               then [CustomValidityCleared (ev_paths ev)] else []))"
    unfolding one by (cases event) auto
  have d: "\<not> validators_clear opts \<longrightarrow>
             snd (Form_clientValidation opts event False adapterOpt st) = Inr (st, None)"
    unfolding one by (cases event) auto
  show ?thesis
    using a b c d process_events_skipped[of opts events st, OF skip] by blast
qed

theorem onsubmit_never_validates_witness:
  "opt_validationMethod
     \<lparr>opt_validators = Adapter \<lparr>ad_validate = (\<lambda>d. Failure []), ad_shape = None,
                                 ad_jsonSchema = True, ad_initial = True\<rparr>,
      opt_validationMethod = OnSubmit, opt_shape = None, opt_enhanced = True\<rparr> = OnSubmit
   \<and> fst (Form_clientValidation
          \<lparr>opt_validators = Adapter \<lparr>ad_validate = (\<lambda>d. Failure []), ad_shape = None,
                                      ad_jsonSchema = True, ad_initial = True\<rparr>,
           opt_validationMethod = OnSubmit, opt_shape = None, opt_enhanced = True\<rparr>
          (Some \<lparr>ev_paths = [[''name'']], ev_type = Some Input, ev_immediate = False,
                 ev_multiple = False, ev_formElement = True, ev_target = OtherElement\<rparr>)
          False None
          \<lparr>data_form = Object False [(''name'', Str ''Al'')], data_errors = Object False [],
           data_tainted = Undefined, tainted_clean = Object False [(''name'', Str [])],
           nextChange = None, queued_validations = 0\<rparr>)
       = [ChangeEventQueued, CustomValidityCleared [[''name'']]]"
  using onsubmit_never_validates[of
      "\<lparr>opt_validators = Adapter \<lparr>ad_validate = (\<lambda>d. Failure []), ad_shape = None,
                                   ad_jsonSchema = True, ad_initial = True\<rparr>,
        opt_validationMethod = OnSubmit, opt_shape = None, opt_enhanced = True\<rparr>"
      "Some \<lparr>ev_paths = [[''name'']], ev_type = Some Input, ev_immediate = False,
              ev_multiple = False, ev_formElement = True, ev_target = OtherElement\<rparr>"
      None
      "\<lparr>data_form = Object False [(''name'', Str ''Al'')], data_errors = Object False [],
        data_tainted = Undefined, tainted_clean = Object False [(''name'', Str [])],
        nextChange = None, queued_validations = 0\<rparr>"
      "[]"]
  by simp

lemma nodes_setPath:
  assumes "(q, w) \<in> set (traversePaths (setPath t d f))" and "\<And>y. \<not> plain_object (f y)"
  shows "(q, w) \<in> set (traversePaths t)
         \<or> (strict_prefix q d \<and> plain_object w)
         \<or> (strict_prefix q d \<and> isArray w \<and> (\<exists>w0. (q, w0) \<in> set (traversePaths t) \<and> isArray w0))
         \<or> (q = d \<and> (\<exists>y. w = f y))"
  using assms
proof (induction t d f arbitrary: q rule: setPath.induct)
  case (1 obj f)
  then show ?case by simp
next
  case (2 obj key f)
  show ?case
  proof (cases "plain_object obj")
    case False
    then have "traversePaths (setPath obj [key] f) = traversePaths obj"
      by (cases obj) (auto simp: traversePaths_not_plain)
    then show ?thesis using "2.prems"(1) by simp
  next
    case True
    then obtain ps where obj: "obj = Object False ps"
      by (cases obj) auto
    let ?y = "f (get_prop obj key)"
    have eq: "setPath obj [key] f = Object False (AList.update key ?y ps)"
      unfolding obj by simp
    have "(q, w) \<in> set (traversePaths_props (AList.update key ?y ps))"
      using "2.prems"(1) unfolding eq traversePaths.simps(1) .
    then have "(q, w) \<in> set (traversePaths_props ps) \<or> (q = [key] \<and> w = ?y)
               \<or> (\<exists>r. q = key # r \<and> (r, w) \<in> set (traversePaths ?y))"
      by (rule in_traversePaths_props_update)
    moreover have "traversePaths ?y = []"
      using "2.prems"(2) by (simp add: traversePaths_not_plain)
    ultimately show ?thesis
      using obj by auto
  qed
next
  case (3 obj key k2 rest f)
  let ?d = "k2 # rest"
  let ?c = "if is_container (get_prop obj key) then get_prop obj key else Object False []"
  let ?y = "setPath ?c ?d f"
  show ?case
  proof (cases "plain_object obj")
    case False
    then have "traversePaths (setPath obj (key # ?d) f) = traversePaths obj"
      by (cases obj) (auto simp: traversePaths_not_plain)
    then show ?thesis using "3.prems"(1) by simp
  next
    case True
    then obtain ps where obj: "obj = Object False ps"
      by (cases obj) auto
    have cont: "is_container ?c" by simp
    have kind: "is_container ?y" "isArray ?y = isArray ?c"
      using setPath_kind[OF cont, of ?d f] by simp_all
    have eq: "setPath obj (key # ?d) f = Object False (AList.update key ?y ps)"
      unfolding obj by simp
    have "(q, w) \<in> set (traversePaths_props (AList.update key ?y ps))"
      using "3.prems"(1) unfolding eq traversePaths.simps(1) .
    then consider (old) "(q, w) \<in> set (traversePaths_props ps)"
      | (here) "q = [key]" "w = ?y"
      | (below) r where "q = key # r" "(r, w) \<in> set (traversePaths ?y)"
      using in_traversePaths_props_update by blast
    then show ?thesis
    proof cases
      case old
      then show ?thesis using obj by simp
    next
      case here
      have sp: "strict_prefix q (key # ?d)"
        using here(1) by (simp add: strict_prefix_def)
      show ?thesis
      proof (cases "isArray ?y")
        case False
        then have "plain_object w"
          using here(2) kind(1) by (simp add: plain_object_def)
        then show ?thesis using sp by simp
      next
        case True
        then have arr: "isArray (get_prop obj key)" "is_container (get_prop obj key)"
          using kind(2) by (auto split: if_splits)
        then obtain c where c: "map_of ps key = Some c" "get_prop obj key = c"
          using obj by (auto split: option.splits)
        then have "(key, c) \<in> set ps"
          by (simp add: map_of_SomeD)
        then have "([key], c) \<in> set (traversePaths obj)"
          using obj by (auto simp: in_traversePaths_props)
        then show ?thesis
          using sp True here arr c by auto
      qed
    next
      case below
      then have plain: "plain_object ?y"
        using traversePaths_not_plain by fastforce
      from "3.IH"[OF below(2) "3.prems"(2)] consider
          (a) "(r, w) \<in> set (traversePaths ?c)"
        | (b) "strict_prefix r ?d" "plain_object w"
        | (c) w0 where "strict_prefix r ?d" "isArray w" "(r, w0) \<in> set (traversePaths ?c)" "isArray w0"
        | (d) y where "r = ?d" "w = f y"
        by blast
      then show ?thesis
      proof cases
        case a
        then have "is_container (get_prop obj key)"
          by (auto split: if_splits)
        then obtain c where c: "map_of ps key = Some c" "get_prop obj key = c"
          using obj by (auto split: option.splits)
        then have "(key, c) \<in> set ps"
          by (simp add: map_of_SomeD)
        moreover have "(r, w) \<in> set (traversePaths c)"
          using a c \<open>is_container (get_prop obj key)\<close> by simp
        ultimately have "(q, w) \<in> set (traversePaths obj)"
          using obj below(1) by (auto simp: in_traversePaths_props)
        then show ?thesis by simp
      next
        case b
        then show ?thesis using below(1) by simp
      next
        case c
        then have "is_container (get_prop obj key)"
          by (auto split: if_splits)
        then obtain c' where c': "map_of ps key = Some c'" "get_prop obj key = c'"
          using obj by (auto split: option.splits)
        then have "(key, c') \<in> set ps"
          by (simp add: map_of_SomeD)
        moreover have "(r, w0) \<in> set (traversePaths c')"
          using c(3) c' \<open>is_container (get_prop obj key)\<close> by simp
        ultimately have "(q, w0) \<in> set (traversePaths obj)"
          using obj below(1) by (auto simp: in_traversePaths_props)
        then show ?thesis
          using c(1,2,4) below(1) by auto
      next
        case d
        then show ?thesis using below(1) by auto
      qed
    qed
  qed
qed


lemma has_key_at_Nil [simp]: "has_key_at t [] = False"
  by (simp add: has_key_at_def)

lemma has_key_at_single [simp]: "has_key_at t [k] = has_prop t k"
  by (cases t) (simp_all add: has_key_at_def)

lemma has_key_at_Cons2 [simp]:
  "has_key_at t (k # k' # ks) = (is_container t \<and> has_key_at (get_prop t k) (k' # ks))"
  by (simp add: has_key_at_def)

lemma has_key_at_not_container: "\<not> is_container t \<Longrightarrow> \<not> has_key_at t p"
  by (cases "(t, p)" rule: pathExists.cases) (auto simp: has_key_at_def)

lemma map_fst_traversePaths_set_props:
  "map fst (traversePaths_set_props f ps pre) = map fst ps"
  by (induction ps) (auto split: prod.splits)

lemma keys_traversePaths_set_props:
  "fst ` set (traversePaths_set_props f ps pre) = fst ` set ps"
  using map_fst_traversePaths_set_props[of f ps pre] by (metis set_map)

lemma has_key_at_cleared:
  "has_key_at (traversePaths_set clear_visitor t pre) p \<Longrightarrow> has_key_at t p"
proof (induction p arbitrary: t pre)
  case Nil
  then show ?case by simp
next
  case (Cons k ks)
  show ?case
  proof (cases "plain_object t")
    case False
    then have "traversePaths_set clear_visitor t pre = t"
      by (cases t) auto
    then show ?thesis using Cons.prems by simp
  next
    case True
    then obtain ps where t: "t = Object False ps"
      by (cases t) auto
    show ?thesis
    proof (cases ks)
      case Nil
      then show ?thesis
        using Cons.prems t by (simp add: keys_traversePaths_set_props)
    next
      case (Cons k' ks')
      have below: "has_key_at (get_prop (traversePaths_set clear_visitor t pre) k) ks"
        using Cons.prems Cons by simp
      show ?thesis
      proof (cases "map_of ps k")
        case None
        then have "get_prop (traversePaths_set clear_visitor t pre) k = Undefined"
          using t by (simp add: map_of_traversePaths_set_props)
        then show ?thesis
          using below has_key_at_not_container[of Undefined ks] by simp
      next
        case (Some c)
        show ?thesis
        proof (cases "isArray c")
          case True
          then have "clear_visitor (pre @ [k]) c = Some Undefined"
            by (simp add: clear_visitor_def)
          then have "get_prop (traversePaths_set clear_visitor t pre) k = Undefined"
            using t Some by (simp add: map_of_traversePaths_set_props)
          then show ?thesis
            using below has_key_at_not_container[of Undefined ks] by simp
        next
          case False
          then have "clear_visitor (pre @ [k]) c = None"
            by (simp add: clear_visitor_def)
          then have "get_prop (traversePaths_set clear_visitor t pre) k =
                     traversePaths_set clear_visitor c (pre @ [k])"
            using t Some by (simp add: map_of_traversePaths_set_props)
          then have "has_key_at c ks"
            using below Cons.IH by simp
          then show ?thesis
            using t Some Cons by simp
        qed
      qed
    qed
  qed
qed

lemma path_cases:
  obtains (empty) "p = []" | (single) k where "p = [k]" | (longer) k k' ks where "p = k # k' # ks"
  by (metis list.exhaust)

lemma has_key_at_empty: "\<not> has_key_at (Object a []) p"
  using has_key_at_not_container[of Undefined]
  by (cases p rule: path_cases) auto

lemma has_key_at_setPath:
  "has_key_at (setPath t q f) p \<Longrightarrow> has_key_at t p \<or> prefix p q \<or> prefix q p"
proof (induction t q f arbitrary: p rule: setPath.induct)
  case (1 obj f)
  then show ?case by simp
next
  case (2 obj key f)
  show ?case
  proof (cases "is_container obj")
    case False
    then show ?thesis
      using "2.prems" setPath_not_container[OF False, of "[key]" f] by simp
  next
    case True
    then obtain a ps where obj: "obj = Object a ps"
      by (cases obj) auto
    show ?thesis
    proof (cases p rule: path_cases)
      case empty
      then show ?thesis using "2.prems" by simp
    next
      case (single k)
      then have "has_prop (Object a (AList.update key (f (get_prop obj key)) ps)) k"
        using "2.prems" obj by simp
      then have "k = key \<or> has_prop obj k"
        using obj by (auto simp: image_iff dest: in_update_set)
      then show ?thesis using single by auto
    next
      case (longer k k' ks)
      then show ?thesis
        using "2.prems" obj by (cases "k = key") (auto simp: update_conv')
    qed
  qed
next
  case (3 obj key k2 rest f)
  let ?c = "if is_container (get_prop obj key) then get_prop obj key else Object False []"
  show ?case
  proof (cases "is_container obj")
    case False
    then show ?thesis
      using "3.prems" setPath_not_container[OF False, of "key # k2 # rest" f] by simp
  next
    case True
    then obtain a ps where obj: "obj = Object a ps"
      by (cases obj) auto
    have eq: "setPath obj (key # k2 # rest) f = Object a (AList.update key (setPath ?c (k2 # rest) f) ps)"
      unfolding obj by simp
    show ?thesis
    proof (cases p rule: path_cases)
      case empty
      then show ?thesis using "3.prems" by simp
    next
      case (single k)
      then have "has_prop (Object a (AList.update key (setPath ?c (k2 # rest) f) ps)) k"
        using "3.prems" unfolding eq by simp
      then have "k = key \<or> has_prop obj k"
        using obj by (auto simp: image_iff dest: in_update_set)
      then show ?thesis using single by auto
    next
      case (longer k k' ks)
      have hk: "has_key_at (get_prop (Object a (AList.update key (setPath ?c (k2 # rest) f) ps)) k) (k' # ks)"
        using "3.prems" longer unfolding eq by simp
      show ?thesis
      proof (cases "k = key")
        case False
        then have "has_key_at (get_prop obj k) (k' # ks)"
          using hk obj by (simp add: update_conv')
        then show ?thesis using longer True by simp
      next
        case True
        then have "has_key_at (setPath ?c (k2 # rest) f) (k' # ks)"
          using hk by (simp add: update_conv')
        from "3.IH"[OF this]
        consider "has_key_at ?c (k' # ks)" | "prefix (k' # ks) (k2 # rest)" | "prefix (k2 # rest) (k' # ks)"
          by blast
        then show ?thesis
        proof cases
          case 1
          then have "is_container (get_prop obj key)"
            using has_key_at_empty[of False "k' # ks"]
            by (auto split: if_splits)
          then have "has_key_at (get_prop obj key) (k' # ks)"
            using 1 by simp
          then show ?thesis using longer True obj by simp
        next
          case 2
          then show ?thesis using longer True by simp
        next
          case 3
          then show ?thesis using longer True by simp
        qed
      qed
    qed
  qed
qed


lemma has_key_at_write_visitor:
  assumes "has_key_at (write_visitor t (q, w)) p"
  shows "has_key_at t p \<or> ((isArray w \<or> w = Undefined) \<and> (prefix p q \<or> prefix q p))"
proof (cases "\<not> isArray w \<and> w \<noteq> Undefined")
  case True
  then show ?thesis using assms by (simp add: write_visitor_def)
next
  case False
  then have "write_visitor t (q, w) = setPath t q (literal w q)"
    by (auto simp: write_visitor_def)
  then show ?thesis
    using assms False has_key_at_setPath[of t q "literal w q" p] by auto
qed

lemma has_key_at_foldl_write:
  assumes "has_key_at (foldl write_visitor t nodes) p"
  shows "has_key_at t p
         \<or> (\<exists>(q, w) \<in> set nodes. (isArray w \<or> w = Undefined) \<and> (prefix p q \<or> prefix q p))"
  using assms
proof (induction nodes arbitrary: t)
  case Nil
  then show ?case by simp
next
  case (Cons n nodes)
  obtain q w where n: "n = (q, w)" by (cases n)
  from Cons.prems have "has_key_at (foldl write_visitor (write_visitor t (q, w)) nodes) p"
    using n by simp
  from Cons.IH[OF this] show ?case
  proof
    assume "has_key_at (write_visitor t (q, w)) p"
    then show ?thesis
      using has_key_at_write_visitor[of t q w p] n by auto
  next
    assume "\<exists>(q, w) \<in> set nodes. (isArray w \<or> w = Undefined) \<and> (prefix p q \<or> prefix q p)"
    then show ?thesis by auto
  qed
qed

text \<open>
  The shape of the output tree of \<open>Form__displayNewErrors\<close>: every node is a plain
  object above a displayed path or an array at a displayed path.
\<close>

definition output_shape :: "path set \<Rightarrow> jsval \<Rightarrow> bool" where
  "output_shape shown out =
     (\<forall>(q, w) \<in> set (traversePaths out).
        (plain_object w \<and> (\<exists>d \<in> shown. strict_prefix q d)) \<or> (isArray w \<and> q \<in> shown))"

lemma output_shape_display_visitor:
  assumes "output_shape shown out"
    and "isArray v \<and> displays opts st event force p v \<longrightarrow> p \<in> shown"
  shows "output_shape shown (display_visitor opts st event force out (p, v))"
proof (cases "isArray v \<and> displays opts st event force p v")
  case False
  then have "display_visitor opts st event force out (p, v) = out"
    by (auto simp: display_visitor_def)
  then show ?thesis using assms(1) by simp
next
  case True
  then have eq: "display_visitor opts st event force out (p, v) = setPath out p (literal v p)"
    by (simp add: display_visitor_def)
  have p: "p \<in> shown" using True assms(2) by simp
  have leafv: "\<not> plain_object (literal v p y)" for y
    using True by (cases v) (auto simp: literal_def)
  show ?thesis
    unfolding output_shape_def eq
  proof (rule ballI)
    fix x
    assume x: "x \<in> set (traversePaths (setPath out p (literal v p)))"
    obtain q w where qw: "x = (q, w)" by (cases x)
    from nodes_setPath[OF x[unfolded qw] leafv] consider
        (old) "(q, w) \<in> set (traversePaths out)"
      | (mid) "strict_prefix q p" "plain_object w"
      | (arr) w0 where "strict_prefix q p" "isArray w" "(q, w0) \<in> set (traversePaths out)" "isArray w0"
      | (leaf) y where "q = p" "w = literal v p y"
      by blast
    then have "(plain_object w \<and> (\<exists>d \<in> shown. strict_prefix q d)) \<or> (isArray w \<and> q \<in> shown)"
    proof cases
      case old
      then show ?thesis using assms(1) by (auto simp: output_shape_def)
    next
      case mid
      then show ?thesis using p by auto
    next
      case arr
      then have "q \<in> shown"
        using assms(1) by (auto simp: output_shape_def plain_object_def)
      then show ?thesis using arr(2) by simp
    next
      case leaf
      then show ?thesis using p True by (simp add: literal_def)
    qed
    then show "case x of (q, w) \<Rightarrow>
                 (plain_object w \<and> (\<exists>d \<in> shown. strict_prefix q d)) \<or> (isArray w \<and> q \<in> shown)"
      by (simp add: qw)
  qed
qed

lemma output_shape_foldl:
  assumes "output_shape shown out"
    and "\<forall>(p, v) \<in> set nodes. isArray v \<and> displays opts st event force p v \<longrightarrow> p \<in> shown"
  shows "output_shape shown (foldl (display_visitor opts st event force) out nodes)"
  using assms
proof (induction nodes arbitrary: out)
  case Nil
  then show ?case by simp
next
  case (Cons n nodes)
  obtain p v where n: "n = (p, v)" by (cases n)
  have "output_shape shown (display_visitor opts st event force out (p, v))"
    using Cons.prems n by (intro output_shape_display_visitor) auto
  then show ?case
    using Cons.IH[of "display_visitor opts st event force out (p, v)"] Cons.prems(2) n by simp
qed

lemma displays_array_value:
  "isArray v \<Longrightarrow> isArray v' \<Longrightarrow>
   displays opts st event force p v = displays opts st event force p v'"
  by (cases v; cases v') (simp_all add: displays_def isEventError_def)

lemma not_displayed_no_previous_key:
  "\<not> displays opts st event False p v \<Longrightarrow> \<not> has_key_at (data_errors st) p"
  by (auto simp: displays_def split: if_splits)

text \<open>
  Claim C1, as amended. For every validation event handled with \<open>force = false\<close>, an
  error leaf of the new error tree that no rule selects for display is left out: it is
  not written to the output tree, and the resulting error store has no key at its path.
  (A path that has a key in the previous store is always selected, by the rule for
  previous errors, so an error that is not selected had no key there either.)
\<close>

theorem suppressed_error_not_stored:
  assumes "distinct_keys errs" and "(p, v) \<in> set (traversePaths errs)" and "isArray v"
    and "\<not> displays opts st event False p v"
  shows "\<not> has_key_at (data_errors (snd (Form__displayNewErrors opts errs event False st))) p"
proof
  define shown where "shown = {p. \<exists>v. (p, v) \<in> set (traversePaths errs) \<and> isArray v
                                  \<and> displays opts st event False p v}"
  define outp where
    "outp = foldl (display_visitor opts st event False) empty_object (traversePaths errs)"
  define Previous1 where "Previous1 = traversePaths_set clear_visitor (data_errors st) []"
  assume "has_key_at (data_errors (snd (Form__displayNewErrors opts errs event False st))) p"
  then have stored: "has_key_at (foldl write_visitor Previous1 (traversePaths outp)) p"
    by (simp add: Form__displayNewErrors_def Errors_set_def updateErrors_def Let_def
        outp_def Previous1_def)
  have shape: "output_shape shown outp"
    unfolding outp_def
    by (rule output_shape_foldl) (auto simp: output_shape_def empty_object_def shown_def)
  have prev: "\<not> has_key_at Previous1 p"
    using not_displayed_no_previous_key[OF assms(4)] has_key_at_cleared
    unfolding Previous1_def by blast
  with has_key_at_foldl_write[OF stored]
  obtain q w where qw: "(q, w) \<in> set (traversePaths outp)" "isArray w \<or> w = Undefined"
      "prefix p q \<or> prefix q p"
    by auto
  from shape qw(1,2) have "q \<in> shown"
    by (auto simp: output_shape_def plain_object_def)
  then obtain v' where q: "(q, v') \<in> set (traversePaths errs)" "isArray v'"
      "displays opts st event False q v'"
    unfolding shown_def by blast
  have leaf_p: "\<not> plain_object v" and leaf_q: "\<not> plain_object v'"
    using assms(3) q(2) by (simp_all add: plain_object_def)
  have "q = p"
    using qw(3)
  proof
    assume "prefix p q"
    then show ?thesis
      using no_node_below_leaf[OF assms(1) assms(2) leaf_p q(1)] by simp
  next
    assume "prefix q p"
    then show ?thesis
      using no_node_below_leaf[OF assms(1) q(1) leaf_q assms(2)] by simp
  qed
  then have "displays opts st event False p v"
    using q(3) displays_array_value[OF assms(3) q(2)] by simp
  then show False
    using assms(4) by simp
qed

theorem suppressed_error_not_stored_witness:
  "distinct_keys (Object False [(''name'', array1 (Str ''Too short''))])
   \<and> ([''name''], array1 (Str ''Too short''))
       \<in> set (traversePaths (Object False [(''name'', array1 (Str ''Too short''))]))
   \<and> isArray (array1 (Str ''Too short''))
   \<and> \<not> displays
         \<lparr>opt_validators = NoValidators, opt_validationMethod = Auto, opt_shape = None,
          opt_enhanced = True\<rparr>
         \<lparr>data_form = Object False [(''name'', Str ''Al'')], data_errors = Object False [],
          data_tainted = Object False [(''name'', Boolean True)],
          tainted_clean = Object False [(''name'', Str [])],
          nextChange = None, queued_validations = 0\<rparr>
         \<lparr>ev_paths = [[''name'']], ev_type = Some Input, ev_immediate = False,
          ev_multiple = False, ev_formElement = True, ev_target = OtherElement\<rparr>
         False [''name''] (array1 (Str ''Too short''))
   \<and> \<not> has_key_at
         (data_errors (snd (Form__displayNewErrors
            \<lparr>opt_validators = NoValidators, opt_validationMethod = Auto, opt_shape = None,
             opt_enhanced = True\<rparr>
            (Object False [(''name'', array1 (Str ''Too short''))])
            \<lparr>ev_paths = [[''name'']], ev_type = Some Input, ev_immediate = False,
             ev_multiple = False, ev_formElement = True, ev_target = OtherElement\<rparr>
            False
            \<lparr>data_form = Object False [(''name'', Str ''Al'')], data_errors = Object False [],
             data_tainted = Object False [(''name'', Boolean True)],
             tainted_clean = Object False [(''name'', Str [])],
             nextChange = None, queued_validations = 0\<rparr>)))
         [''name'']"
proof -
  let ?errs = "Object False [(''name'', array1 (Str ''Too short''))]"
  let ?opts = "\<lparr>opt_validators = NoValidators, opt_validationMethod = Auto, opt_shape = None,
                 opt_enhanced = True\<rparr>"
  let ?st = "\<lparr>data_form = Object False [(''name'', Str ''Al'')], data_errors = Object False [],
               data_tainted = Object False [(''name'', Boolean True)],
               tainted_clean = Object False [(''name'', Str [])],
               nextChange = None, queued_validations = 0\<rparr>"
  let ?ev = "\<lparr>ev_paths = [[''name'']], ev_type = Some Input, ev_immediate = False,
               ev_multiple = False, ev_formElement = True, ev_target = OtherElement\<rparr>"
  have a: "distinct_keys ?errs"
    by (simp add: array1_def)
  have b: "([''name''], array1 (Str ''Too short'')) \<in> set (traversePaths ?errs)"
    by (simp add: array1_def)
  have c: "isArray (array1 (Str ''Too short''))"
    by (simp add: array1_def)
  have d: "\<not> displays ?opts ?st ?ev False [''name''] (array1 (Str ''Too short''))"
    by (simp add: displays_def isEventError_def isObjectError_def currentPath_def array1_def)
  show ?thesis
    using a b c d suppressed_error_not_stored[OF a b c d] by blast
qed

text \<open>
  Claim C1 as stated fails. The form has no errors yet; the user types into \<open>name\<close>
  (an input event, validation method \<open>'auto'\<close>) and the validator reports
  \<open>name: Too short\<close>. The error is not selected for display, and the error store
  after the event is \<open>{}\<close>: there is no key \<open>name\<close> with the value \<open>undefined\<close>.
\<close>

theorem suppressed_error_not_stored_counterexample:
  "snd (Form_clientValidation
          \<lparr>opt_validators = Adapter
             \<lparr>ad_validate = (\<lambda>d. Failure [\<lparr>issue_path = Some [PStr ''name''],
                                             issue_message = ''Too short''\<rparr>]),
              ad_shape = None, ad_jsonSchema = True, ad_initial = True\<rparr>,
           opt_validationMethod = Auto, opt_shape = None, opt_enhanced = True\<rparr>
          (Some \<lparr>ev_paths = [[''name'']], ev_type = Some Input, ev_immediate = False,
                 ev_multiple = False, ev_formElement = True, ev_target = OtherElement\<rparr>)
          False None
          \<lparr>data_form = Object False [(''name'', Str ''Al'')], data_errors = Object False [],
           data_tainted = Object False [(''name'', Boolean True)],
           tainted_clean = Object False [(''name'', Str [])],
           nextChange = None, queued_validations = 0\<rparr>)
   = Inr (\<lparr>data_form = Object False [(''name'', Str ''Al'')], data_errors = Object False [],
           data_tainted = Object False [(''name'', Boolean True)],
           tainted_clean = Object False [(''name'', Str [])],
           nextChange = None, queued_validations = 0\<rparr>,
          Some \<lparr>v_valid = False,
                v_errors = Object False [(''name'', Object True [(''0'', Str ''Too short'')])],
                v_data = Object False [(''name'', Str ''Al'')]\<rparr>)
   \<and> \<not> has_key_at (Object False []) [''name'']"
  by code_simp

end
